theory Spec2Isabelle
  imports Main "HOL-Library.Word"
begin

unbundle bit_operations_syntax

section \<open>The pool allocator of MyTinySTL/alloc.h\<close>

text \<open>
  The class \<open>alloc\<close> keeps four static members: the bounds \<open>start_free\<close> and
  \<open>end_free\<close> of the pool region, the counter \<open>heap_size\<close> and the table
  \<open>free_list\<close> of 56 list heads. A free block stores the pointer to the next free block
  in its own first word (the union \<open>FreeList\<close>).

  \<open>size_t\<close> and pointers are 64-bit words; the null pointer is 0. Pointer arithmetic
  is word arithmetic. The memory is modelled as far as the allocator uses it: the field
  \<open>next\<close> of the \<open>FreeList\<close> node at every address. The system allocator is outside the
  program: \<open>malloc_results\<close> lists what the coming calls of \<open>std::malloc\<close> answer (0 is
  a failed call, and so is every call after the end of the list), and \<open>sys_calls\<close> records
  the calls of \<open>std::malloc\<close> and \<open>std::free\<close> the program makes, in order.
\<close>

type_synonym size_t = "64 word"
type_synonym ptr = "64 word"

datatype sys_call = Malloc size_t | Free ptr

record alloc_state =
  start_free :: ptr
  end_free :: ptr
  heap_size :: size_t
  free_list :: "nat \<Rightarrow> ptr"
  next_field :: "ptr \<Rightarrow> ptr"
  malloc_results :: "ptr list"
  sys_calls :: "sys_call list"

text \<open>
  How a call ends: it returns a value, it throws \<open>std::bad_alloc\<close>, control reaches the
  closing brace of a function that has to return a value without passing a \<open>return\<close>
  statement, it does something the language leaves undefined (an index outside
  \<open>free_list\<close>, a write through the null pointer), or the model's bound on the depth of
  the recursion of \<open>M_chunk_alloc\<close> is used up.
\<close>

datatype 'a outcome = Returned 'a | Bad_alloc | Falls_off_end | Undefined | Out_of_fuel

definition EFreeListsNumber :: nat where
  "EFreeListsNumber = 56"

definition ESmallObjectBytes :: size_t where
  "ESmallObjectBytes = 4096"

definition MAX_CHUNK :: size_t where
  "MAX_CHUNK = 1024 * 1024"

definition init_state :: "(ptr \<Rightarrow> ptr) \<Rightarrow> ptr list \<Rightarrow> alloc_state" where
  "init_state mem answers =
     \<lparr>start_free = 0, end_free = 0, heap_size = 0, free_list = (\<lambda>i. 0),
      next_field = mem, malloc_results = answers, sys_calls = []\<rparr>"

subsection \<open>The system allocator\<close>

definition sys_malloc :: "size_t \<Rightarrow> alloc_state \<Rightarrow> ptr \<times> alloc_state" where
  "sys_malloc n s =
     (case malloc_results s of
        [] \<Rightarrow> (0, s\<lparr>sys_calls := sys_calls s @ [Malloc n]\<rparr>)
      | p # ps \<Rightarrow> (p, s\<lparr>malloc_results := ps, sys_calls := sys_calls s @ [Malloc n]\<rparr>))"

definition sys_free :: "ptr \<Rightarrow> alloc_state \<Rightarrow> alloc_state" where
  "sys_free p s = s\<lparr>sys_calls := sys_calls s @ [Free p]\<rparr>"

subsection \<open>Size classes\<close>

definition M_align :: "size_t \<Rightarrow> size_t" where
  "M_align bytes =
     (if bytes \<le> 512
      then (if bytes \<le> 256 then (if bytes \<le> 128 then 8 else 16) else 32)
      else (if bytes \<le> 2048 then (if bytes \<le> 1024 then 64 else 128) else 256))"

definition M_round_up :: "size_t \<Rightarrow> size_t" where
  "M_round_up bytes = (bytes + M_align bytes - 1) AND NOT (M_align bytes - 1)"

definition M_freelist_index :: "size_t \<Rightarrow> size_t" where
  "M_freelist_index bytes =
     (if bytes \<le> 512
      then (if bytes \<le> 256
            then (if bytes \<le> 128
                  then (bytes + 8 - 1) div 8 - 1
                  else 15 + (bytes + 16 - 129) div 16)
            else 23 + (bytes + 32 - 257) div 32)
      else (if bytes \<le> 2048
            then (if bytes \<le> 1024
                  then 31 + (bytes + 64 - 513) div 64
                  else 39 + (bytes + 128 - 1025) div 128)
            else 47 + (bytes + 256 - 2049) div 256))"

subsection \<open>Taking space from the pool: \<open>M_chunk_alloc\<close>\<close>

text \<open>
  The tail of the old pool region goes to the head of the free list that
  \<open>M_freelist_index\<close> gives for its size (lines 293 to 299). \<open>None\<close> is undefined
  behaviour: the index is outside the table or the pool starts at the null pointer.
\<close>

definition recycle_leftover :: "size_t \<Rightarrow> alloc_state \<Rightarrow> alloc_state option" where
  "recycle_leftover pool_bytes s =
     (if pool_bytes > 0
      then (let idx = unat (M_freelist_index pool_bytes); block = start_free s in
            if idx \<ge> EFreeListsNumber \<or> block = 0 then None
            else Some (s\<lparr>free_list := (free_list s)(idx := block),
                         next_field := (next_field s)(block := free_list s idx)\<rparr>))
      else Some s)"

text \<open>The size of the new pool region, with its upper limit (lines 302 to 305).\<close>

definition bytes_to_get :: "size_t \<Rightarrow> size_t \<Rightarrow> size_t" where
  "bytes_to_get need_bytes hs =
     (let b = push_bit 1 need_bytes + M_round_up (drop_bit 4 hs) in
      if b > MAX_CHUNK then max need_bytes MAX_CHUNK else b)"

text \<open>
  The loop of lines 313 to 325 that looks for a free block after a failed system
  allocation: \<open>bytes\<close> starts at the block size and grows by \<open>M_align bytes\<close> while
  it is at most 4096. The result is the value of \<open>bytes\<close> at which the list is not
  empty.
\<close>

datatype scan_result = Found size_t | Not_found | Out_of_table

function salvage_scan :: "size_t \<Rightarrow> (nat \<Rightarrow> ptr) \<Rightarrow> scan_result" where
  "salvage_scan bytes fl =
     (if bytes \<le> ESmallObjectBytes
      then (let idx = unat (M_freelist_index bytes) in
            if idx \<ge> EFreeListsNumber then Out_of_table
            else if fl idx \<noteq> 0 then Found bytes
            else salvage_scan (bytes + M_align bytes) fl)
      else Not_found)"
  by pat_completeness auto
termination
proof (relation "measure (\<lambda>(bytes, fl). 4097 - unat bytes)")
  show "wf (measure (\<lambda>(bytes, fl). 4097 - unat bytes))" by simp
next
  fix bytes :: size_t and fl :: "nat \<Rightarrow> ptr" and idx :: nat
  assume le: "bytes \<le> ESmallObjectBytes"
  then have b: "unat bytes \<le> 4096"
    by (simp add: ESmallObjectBytes_def word_le_nat_alt)
  have a: "8 \<le> unat (M_align bytes)" "unat (M_align bytes) \<le> 256"
    by (simp_all add: M_align_def)
  from a b have "unat bytes + unat (M_align bytes) < 2 ^ LENGTH(64)" by simp
  then have "unat (bytes + M_align bytes) = unat bytes + unat (M_align bytes)"
    by (simp only: unat_add_lem)
  with a b show "((bytes + M_align bytes, fl), bytes, fl) \<in> measure (\<lambda>(bytes, fl). 4097 - unat bytes)"
    by simp
qed

text \<open>
  \<open>M_chunk_alloc sz nblock\<close> (\<open>sz\<close> is the parameter \<open>size\<close> of the source) returns
  the start of the space it takes from the pool and the number of blocks it really took
  (the reference parameter \<open>nblock\<close>). The source calls itself after it has installed a
  new pool region; the first argument of the model bounds the depth of these calls.
\<close>

fun M_chunk_alloc ::
  "nat \<Rightarrow> size_t \<Rightarrow> size_t \<Rightarrow> alloc_state \<Rightarrow> ptr outcome \<times> size_t \<times> alloc_state" where
  "M_chunk_alloc 0 sz nblock s = (Out_of_fuel, nblock, s)"
| "M_chunk_alloc (Suc fuel) sz nblock s =
     (let need_bytes = sz * nblock;
          pool_bytes = end_free s - start_free s in
      if pool_bytes \<ge> need_bytes
      then (Returned (start_free s), nblock, s\<lparr>start_free := start_free s + need_bytes\<rparr>)
      else if pool_bytes \<ge> sz
      then (let nblock' = pool_bytes div sz;
                need_bytes' = sz * nblock' in
            (Returned (start_free s), nblock', s\<lparr>start_free := start_free s + need_bytes'\<rparr>))
      else (case recycle_leftover pool_bytes s of
              None \<Rightarrow> (Undefined, nblock, s)
            | Some s1 \<Rightarrow>
                (let get = bytes_to_get need_bytes (heap_size s1);
                     (p, s2) = sys_malloc get s1;
                     s3 = s2\<lparr>start_free := p\<rparr> in
                 if p = 0
                 then (case salvage_scan sz (free_list s3) of
                         Found bytes \<Rightarrow>
                           (let idx = unat (M_freelist_index bytes);
                                block = free_list s3 idx in
                            M_chunk_alloc fuel sz nblock
                              (s3\<lparr>free_list := (free_list s3)(idx := next_field s3 block),
                                  start_free := block,
                                  end_free := block + bytes\<rparr>))
                       | Not_found \<Rightarrow> (Bad_alloc, nblock, s3\<lparr>end_free := 0\<rparr>)
                       | Out_of_table \<Rightarrow> (Undefined, nblock, s3))
                 else M_chunk_alloc fuel sz nblock
                        (s3\<lparr>end_free := p + get, heap_size := heap_size s3 + get\<rparr>))))"

subsection \<open>Refilling a free list: \<open>M_refill\<close>\<close>

text \<open>
  The loop of lines 213 to 219 puts the blocks after the first one at the head of the
  list \<open>index\<close>, one at a time.
\<close>

function refill_loop ::
  "size_t \<Rightarrow> size_t \<Rightarrow> size_t \<Rightarrow> nat \<Rightarrow> ptr \<Rightarrow> alloc_state \<Rightarrow> alloc_state" where
  "refill_loop i nblock n index next_block s =
     (if i < nblock
      then refill_loop (i + 1) nblock n index (next_block + n)
             (s\<lparr>next_field := (next_field s)(next_block := free_list s index),
                free_list := (free_list s)(index := next_block)\<rparr>)
      else s)"
  by pat_completeness auto
termination
proof (relation "measure (\<lambda>(i, nblock, n, index, next_block, s). unat nblock - unat i)")
  show "wf (measure (\<lambda>(i, nblock, n, index, next_block, s). unat nblock - unat i))"
    by simp
next
  fix i nblock n next_block :: size_t and index :: nat and s :: alloc_state
  assume "i < nblock"
  then have lt: "unat i < unat nblock" by (simp add: word_less_nat_alt)
  moreover have "unat nblock < 2 ^ 64" using unsigned_less [of nblock] by simp
  ultimately have "unat i + unat (1 :: size_t) < 2 ^ LENGTH(64)" by simp
  then have "unat (i + 1) = unat i + unat (1 :: size_t)"
    by (simp only: unat_add_lem)
  with lt show "((i + 1, nblock, n, index, next_block + n,
      s\<lparr>next_field := (next_field s)(next_block := free_list s index),
        free_list := (free_list s)(index := next_block)\<rparr>),
     i, nblock, n, index, next_block, s)
    \<in> measure (\<lambda>(i, nblock, n, index, next_block, s). unat nblock - unat i)"
    by simp
qed

text \<open>
  \<open>M_refill\<close> asks \<open>M_chunk_alloc\<close> for 10 blocks. With one block it returns it. With
  more, it builds the list and then reaches the end of the function: the source has no
  \<open>return\<close> statement after the loop (line 220).
\<close>

definition M_refill :: "nat \<Rightarrow> size_t \<Rightarrow> alloc_state \<Rightarrow> ptr outcome \<times> alloc_state" where
  "M_refill fuel n s =
     (case M_chunk_alloc fuel n 10 s of
        (Returned c, nblock, s1) \<Rightarrow>
          (let index = unat (M_freelist_index n) in
           if nblock = 1 then (Returned c, s1)
           else if index \<ge> EFreeListsNumber then (Undefined, s1)
           else (Falls_off_end, refill_loop 1 nblock n index (c + n) s1))
      | (Bad_alloc, nblock, s1) \<Rightarrow> (Bad_alloc, s1)
      | (Falls_off_end, nblock, s1) \<Rightarrow> (Falls_off_end, s1)
      | (Undefined, nblock, s1) \<Rightarrow> (Undefined, s1)
      | (Out_of_fuel, nblock, s1) \<Rightarrow> (Out_of_fuel, s1))"

subsection \<open>The public operations\<close>

text \<open>
  In \<open>allocate\<close> the variable \<open>my_free_list\<close> is a copy of the list head, so the
  assignment of line 113 changes the copy and not the table. In \<open>deallocate\<close> it is a
  pointer to the table entry.
\<close>

definition allocate :: "nat \<Rightarrow> size_t \<Rightarrow> alloc_state \<Rightarrow> ptr outcome \<times> alloc_state" where
  "allocate fuel n s =
     (if n > ESmallObjectBytes
      then (let (p, s') = sys_malloc n s in (Returned p, s'))
      else (let idx = unat (M_freelist_index n) in
            if idx \<ge> EFreeListsNumber then (Undefined, s)
            else (let result = free_list s idx in
                  if result = 0 then M_refill fuel (M_round_up n) s
                  else (Returned result, s))))"

definition deallocate :: "ptr \<Rightarrow> size_t \<Rightarrow> alloc_state \<Rightarrow> unit outcome \<times> alloc_state" where
  "deallocate p n s =
     (if n > ESmallObjectBytes
      then (Returned (), sys_free p s)
      else (let idx = unat (M_freelist_index n) in
            if idx \<ge> EFreeListsNumber \<or> p = 0 then (Undefined, s)
            else (Returned (),
                  s\<lparr>next_field := (next_field s)(p := free_list s idx),
                    free_list := (free_list s)(idx := p)\<rparr>)))"

definition reallocate ::
  "nat \<Rightarrow> ptr \<Rightarrow> size_t \<Rightarrow> size_t \<Rightarrow> alloc_state \<Rightarrow> ptr outcome \<times> alloc_state" where
  "reallocate fuel p old_size new_size s =
     (case deallocate p old_size s of
        (Returned u, s1) \<Rightarrow> allocate fuel new_size s1
      | (Bad_alloc, s1) \<Rightarrow> (Bad_alloc, s1)
      | (Falls_off_end, s1) \<Rightarrow> (Falls_off_end, s1)
      | (Undefined, s1) \<Rightarrow> (Undefined, s1)
      | (Out_of_fuel, s1) \<Rightarrow> (Out_of_fuel, s1))"

text \<open>
  The blocks of a free list, read from the memory: from \<open>p\<close> along the \<open>next\<close> fields
  to the null pointer, in at most \<open>k\<close> steps (\<open>None\<close> when the null pointer is not
  reached).
\<close>

fun chain :: "nat \<Rightarrow> (ptr \<Rightarrow> ptr) \<Rightarrow> ptr \<Rightarrow> ptr list option" where
  "chain 0 mem p = (if p = 0 then Some [] else None)"
| "chain (Suc k) mem p =
     (if p = 0 then Some []
      else (case chain k mem (mem p) of None \<Rightarrow> None | Some ps \<Rightarrow> Some (p # ps)))"

subsection \<open>The size classes as natural numbers\<close>

text \<open>
  For requests of 1 to 4096 bytes no operation of the three functions of the size
  classes wraps around, so their results can be read as natural numbers:
  \<open>band_alignment\<close> is \<open>M_align\<close>, \<open>block_size\<close> is \<open>M_round_up\<close> and
  \<open>class_index\<close> is \<open>M_freelist_index\<close>. \<open>class_size i\<close> is the size of the blocks of
  the list \<open>i\<close>. The lemmas below prove that these readings are right.
\<close>

definition band_alignment :: "nat \<Rightarrow> nat" where
  "band_alignment n =
     (if n \<le> 128 then 8 else if n \<le> 256 then 16 else if n \<le> 512 then 32
      else if n \<le> 1024 then 64 else if n \<le> 2048 then 128 else 256)"

definition block_size :: "nat \<Rightarrow> nat" where
  "block_size n = (n + band_alignment n - 1) div band_alignment n * band_alignment n"

definition class_index :: "nat \<Rightarrow> nat" where
  "class_index n =
     (if n \<le> 128 then (n + 7) div 8 - 1
      else if n \<le> 256 then 15 + (n - 113) div 16
      else if n \<le> 512 then 23 + (n - 225) div 32
      else if n \<le> 1024 then 31 + (n - 449) div 64
      else if n \<le> 2048 then 39 + (n - 897) div 128
      else 47 + (n - 1793) div 256)"

definition class_size :: "nat \<Rightarrow> nat" where
  "class_size i =
     (if i \<le> 15 then 8 * (i + 1) else if i \<le> 23 then 16 * (i - 7)
      else if i \<le> 31 then 32 * (i - 15) else if i \<le> 39 then 64 * (i - 23)
      else if i \<le> 47 then 128 * (i - 31) else 256 * (i - 39))"

text \<open>The next call of \<open>std::malloc\<close> fails.\<close>

definition malloc_fails :: "alloc_state \<Rightarrow> bool" where
  "malloc_fails s = (case malloc_results s of [] \<Rightarrow> True | p # ps \<Rightarrow> p = 0)"

section \<open>Words and natural numbers\<close>

lemma and_not_mask_push_drop: "(x :: 'a::len word) AND NOT (mask k) = push_bit k (drop_bit k x)"
  by (rule bit_eqI) (auto simp add: bit_simps)

lemma unat_and_not_mask: "unat ((x :: 'a::len word) AND NOT (mask k)) = (unat x div 2 ^ k) * 2 ^ k"
proof -
  have t: "unat (take_bit k x) = unat x mod 2 ^ k"
    unfolding unsigned_take_bit_eq by (rule take_bit_eq_mod)
  then have le: "take_bit k x \<le> x"
    by (simp add: word_le_nat_alt)
  have "push_bit k (drop_bit k x) + take_bit k x = x"
    by (rule bits_ident)
  then have "push_bit k (drop_bit k x) = x - take_bit k x"
    by (simp add: eq_diff_eq)
  then have "unat (push_bit k (drop_bit k x)) = unat x - unat x mod 2 ^ k"
    using le t by (simp add: unat_sub)
  also have "\<dots> = (unat x div 2 ^ k) * 2 ^ k"
    by (simp add: minus_mod_eq_div_mult)
  finally show ?thesis by (simp add: and_not_mask_push_drop)
qed

lemma M_align_unat:
  "unat (M_align b) =
     (if unat b \<le> 128 then 8 else if unat b \<le> 256 then 16 else if unat b \<le> 512 then 32
      else if unat b \<le> 1024 then 64 else if unat b \<le> 2048 then 128 else 256)"
  by (simp add: M_align_def word_le_nat_alt)

lemma M_align_mask:
  "M_align b - 1 =
     mask (if unat b \<le> 128 then 3 else if unat b \<le> 256 then 4 else if unat b \<le> 512 then 5
      else if unat b \<le> 1024 then 6 else if unat b \<le> 2048 then 7 else 8)"
  by (simp add: M_align_def word_le_nat_alt mask_eq_exp_minus_1)

lemma band_index_unat:
  fixes b a c base :: size_t
  assumes "unat b \<le> 4096" "unat a \<le> 256" "unat c \<le> unat b + unat a" "unat base \<le> 64"
  shows "unat (base + (b + a - c) div a) = unat base + (unat b + unat a - unat c) div unat a"
proof -
  have "unat b + unat a < 2 ^ LENGTH(64)" using assms by simp
  then have 1: "unat (b + a) = unat b + unat a" by (simp only: unat_add_lem)
  have "c \<le> b + a" using assms 1 by (simp add: word_le_nat_alt)
  then have 2: "unat (b + a - c) = unat b + unat a - unat c"
    using 1 by (simp add: unat_sub)
  have 3: "unat ((b + a - c) div a) = (unat b + unat a - unat c) div unat a"
    by (simp only: unat_div 2)
  have "(unat b + unat a - unat c) div unat a \<le> unat b + unat a - unat c"
    by (rule div_le_dividend)
  also have "\<dots> \<le> 4352" using assms by linarith
  finally have "unat ((b + a - c) div a) \<le> 4352" by (simp only: 3)
  then have "unat base + unat ((b + a - c) div a) < 2 ^ LENGTH(64)"
    using assms(4) by simp
  then have "unat (base + (b + a - c) div a) = unat base + unat ((b + a - c) div a)"
    by (simp only: unat_add_lem)
  then show ?thesis by (simp only: 3)
qed

lemma first_band_index_unat:
  fixes b :: size_t
  assumes "1 \<le> unat b" "unat b \<le> 4096"
  shows "unat ((b + 8 - 1) div 8 - 1) = (unat b + 7) div 8 - 1"
proof -
  have q: "unat (0 + (b + 8 - 1) div 8) = unat (0::size_t) + (unat b + unat (8::size_t) - unat (1::size_t)) div unat (8::size_t)"
    using assms by (intro band_index_unat) simp_all
  then have q': "unat ((b + 8 - 1) div 8) = (unat b + 7) div 8" by simp
  then have "1 \<le> unat ((b + 8 - 1) div 8)" using assms by simp
  then have "1 \<le> (b + 8 - 1) div 8" by (simp add: word_le_nat_alt)
  then have "unat ((b + 8 - 1) div 8 - 1) = unat ((b + 8 - 1) div 8) - unat (1::size_t)"
    by (rule unat_sub)
  then show ?thesis using q' by simp
qed

lemma M_freelist_index_unat:
  assumes "1 \<le> unat b" "unat b \<le> 4096"
  shows "unat (M_freelist_index b) = class_index (unat b)"
  using assms first_band_index_unat [of b]
    band_index_unat [of b 16 129 15] band_index_unat [of b 32 257 23]
    band_index_unat [of b 64 513 31] band_index_unat [of b 128 1025 39]
    band_index_unat [of b 256 2049 47]
  by (simp add: M_freelist_index_def class_index_def word_le_nat_alt)

section \<open>Arithmetic of the size classes\<close>

lemma class_index_band:
  "1 \<le> n \<Longrightarrow> n \<le> 128 \<Longrightarrow> class_index n \<le> 15"
  "128 < n \<Longrightarrow> n \<le> 256 \<Longrightarrow> 16 \<le> class_index n \<and> class_index n \<le> 23"
  "256 < n \<Longrightarrow> n \<le> 512 \<Longrightarrow> 24 \<le> class_index n \<and> class_index n \<le> 31"
  "512 < n \<Longrightarrow> n \<le> 1024 \<Longrightarrow> 32 \<le> class_index n \<and> class_index n \<le> 39"
  "1024 < n \<Longrightarrow> n \<le> 2048 \<Longrightarrow> 40 \<le> class_index n \<and> class_index n \<le> 47"
  "2048 < n \<Longrightarrow> n \<le> 4096 \<Longrightarrow> 48 \<le> class_index n \<and> class_index n \<le> 55"
  unfolding class_index_def by simp_all arith+

lemma class_index_range: "1 \<le> n \<Longrightarrow> n \<le> 4096 \<Longrightarrow> class_index n < 56"
  using class_index_band [of n] by (cases "n \<le> 128"; cases "n \<le> 256"; cases "n \<le> 512"; cases "n \<le> 1024"; cases "n \<le> 2048") simp_all

lemma class_index_same_band:
  "m \<le> n \<Longrightarrow> band_alignment m = band_alignment n \<Longrightarrow> class_index m \<le> class_index n"
  unfolding class_index_def band_alignment_def
  by (auto split: if_splits intro!: div_le_mono diff_le_mono)

lemma class_index_mono:
  assumes "1 \<le> m" "m \<le> n" "n \<le> 4096"
  shows "class_index m \<le> class_index n"
proof (cases "band_alignment m = band_alignment n")
  case True
  with assms show ?thesis by (simp add: class_index_same_band)
next
  case False
  with assms class_index_band [of m] class_index_band [of n] show ?thesis
    unfolding band_alignment_def by (simp split: if_splits)
qed

lemma div_shift:
  fixes n a c k :: nat
  assumes "c \<le> n" "c + a = k * a + 1" "0 < a"
  shows "(n + a - 1) div a = (n - c) div a + k"
proof -
  have "n + a - 1 = (n - c) + k * a" using assms by linarith
  then show ?thesis using assms(3) by simp
qed

lemma block_size_class:
  assumes "1 \<le> n" "n \<le> 4096"
  shows "block_size n = class_size (class_index n)"
proof -
  consider "n \<le> 128" | "128 < n" "n \<le> 256" | "256 < n" "n \<le> 512" | "512 < n" "n \<le> 1024"
    | "1024 < n" "n \<le> 2048" | "2048 < n" by linarith
  then show ?thesis
  proof cases
    case 1
    have "1 \<le> (n + 7) div 8" using assms by simp
    with 1 class_index_band(1) [of n] assms show ?thesis
      by (simp add: block_size_def band_alignment_def class_size_def class_index_def)
  next
    case 2
    with class_index_band(2) [of n] div_shift [of 113 n 16 8] show ?thesis
      by (simp add: block_size_def band_alignment_def class_size_def class_index_def)
  next
    case 3
    with class_index_band(3) [of n] div_shift [of 225 n 32 8] show ?thesis
      by (simp add: block_size_def band_alignment_def class_size_def class_index_def)
  next
    case 4
    with class_index_band(4) [of n] div_shift [of 449 n 64 8] show ?thesis
      by (simp add: block_size_def band_alignment_def class_size_def class_index_def)
  next
    case 5
    with class_index_band(5) [of n] div_shift [of 897 n 128 8] show ?thesis
      by (simp add: block_size_def band_alignment_def class_size_def class_index_def)
  next
    case 6
    with class_index_band(6) [of n] div_shift [of 1793 n 256 8] assms show ?thesis
      by (simp add: block_size_def band_alignment_def class_size_def class_index_def)
  qed
qed

lemma class_size_mono: "i \<le> j \<Longrightarrow> class_size i \<le> class_size j"
  unfolding class_size_def by (auto split: if_splits)

lemma block_size_ge: "n \<le> block_size n"
proof -
  have a: "0 < band_alignment n" by (simp add: band_alignment_def)
  have "n + band_alignment n - 1 < (n + band_alignment n - 1) div band_alignment n * band_alignment n + band_alignment n"
    using a by (metis div_mult_mod_eq mod_less_divisor add_less_cancel_left)
  then show ?thesis using a unfolding block_size_def by linarith
qed

lemma block_size_dvd: "band_alignment n dvd block_size n"
  by (simp add: block_size_def)

lemma class_index_step:
  assumes "1 \<le> n" "n + band_alignment n \<le> 4096"
  shows "class_index (n + band_alignment n) = class_index n + 1"
proof -
  consider "n \<le> 120" | "120 < n" "n \<le> 128" | "128 < n" "n \<le> 240" | "240 < n" "n \<le> 256"
    | "256 < n" "n \<le> 480" | "480 < n" "n \<le> 512" | "512 < n" "n \<le> 960" | "960 < n" "n \<le> 1024"
    | "1024 < n" "n \<le> 1920" | "1920 < n" "n \<le> 2048" | "2048 < n" by linarith
  then show ?thesis
  proof cases
    case 1
    have "(n + 8 + 7) div 8 = (n + 7) div 8 + 1" by simp
    moreover have "1 \<le> (n + 7) div 8" using assms by simp
    ultimately show ?thesis using 1 by (simp add: class_index_def band_alignment_def)
  next
    case 2
    then have "(n + 7) div 8 = 16" "(n - 105) div 16 = 1" by arith+
    then show ?thesis using 2 by (simp add: class_index_def band_alignment_def)
  next
    case 3
    then have "(n + 16 - 113) div 16 = (n - 113) div 16 + 1" by simp
    then show ?thesis using 3 by (simp add: class_index_def band_alignment_def)
  next
    case 4
    then have "(n - 113) div 16 = 8" "(n - 209) div 32 = 1" by arith+
    then show ?thesis using 4 by (simp add: class_index_def band_alignment_def)
  next
    case 5
    then have "(n + 32 - 225) div 32 = (n - 225) div 32 + 1" by simp
    then show ?thesis using 5 by (simp add: class_index_def band_alignment_def)
  next
    case 6
    then have "(n - 225) div 32 = 8" "(n - 417) div 64 = 1" by arith+
    then show ?thesis using 6 by (simp add: class_index_def band_alignment_def)
  next
    case 7
    then have "(n + 64 - 449) div 64 = (n - 449) div 64 + 1" by simp
    then show ?thesis using 7 by (simp add: class_index_def band_alignment_def)
  next
    case 8
    then have "(n - 449) div 64 = 8" "(n - 833) div 128 = 1" by arith+
    then show ?thesis using 8 by (simp add: class_index_def band_alignment_def)
  next
    case 9
    then have "(n + 128 - 897) div 128 = (n - 897) div 128 + 1" by simp
    then show ?thesis using 9 by (simp add: class_index_def band_alignment_def)
  next
    case 10
    then have "(n - 897) div 128 = 8" "(n - 1665) div 256 = 1" by arith+
    then show ?thesis using 10 by (simp add: class_index_def band_alignment_def)
  next
    case 11
    then have "(n + 256 - 1793) div 256 = (n - 1793) div 256 + 1" by simp
    then show ?thesis using 11 by (simp add: class_index_def band_alignment_def)
  qed
qed

lemma class_index_last:
  assumes "1 \<le> n" "n \<le> 4096"
  shows "(4096 < n + band_alignment n) = (class_index n = 55)"
proof (cases "2048 < n")
  case True
  then have "(3840 < n) = ((n - 1793) div 256 = 8)" using assms by arith
  then show ?thesis using True by (simp add: class_index_def band_alignment_def)
next
  case False
  then have "class_index n \<le> 47" using class_index_band [of n] assms
    by (cases "n \<le> 128"; cases "n \<le> 256"; cases "n \<le> 512"; cases "n \<le> 1024") simp_all
  then show ?thesis using False by (simp add: band_alignment_def)
qed

lemma class_index_class_size:
  assumes "i < 56"
  shows "class_index (class_size i) = i"
proof -
  consider "i \<le> 15" | "15 < i" "i \<le> 23" | "23 < i" "i \<le> 31" | "31 < i" "i \<le> 39"
    | "39 < i" "i \<le> 47" | "47 < i" by linarith
  then show ?thesis
  proof cases
    case 1
    then have "class_size i = 8 * (i + 1)" by (simp add: class_size_def)
    moreover have "(8 * (i + 1) + 7) div 8 - 1 = i" by arith
    ultimately show ?thesis using 1 by (simp add: class_index_def)
  next
    case 2
    then have "class_size i = 16 * (i - 7)" by (simp add: class_size_def)
    moreover have "15 + (16 * (i - 7) - 113) div 16 = i" using 2 by arith
    moreover have "128 < 16 * (i - 7)" "16 * (i - 7) \<le> 256" using 2 assms by linarith+
    ultimately show ?thesis by (simp add: class_index_def)
  next
    case 3
    then have "class_size i = 32 * (i - 15)" by (simp add: class_size_def)
    moreover have "23 + (32 * (i - 15) - 225) div 32 = i" using 3 by arith
    moreover have "256 < 32 * (i - 15)" "32 * (i - 15) \<le> 512" using 3 assms by linarith+
    ultimately show ?thesis by (simp add: class_index_def)
  next
    case 4
    then have "class_size i = 64 * (i - 23)" by (simp add: class_size_def)
    moreover have "31 + (64 * (i - 23) - 449) div 64 = i" using 4 by arith
    moreover have "512 < 64 * (i - 23)" "64 * (i - 23) \<le> 1024" using 4 assms by linarith+
    ultimately show ?thesis by (simp add: class_index_def)
  next
    case 5
    then have "class_size i = 128 * (i - 31)" by (simp add: class_size_def)
    moreover have "39 + (128 * (i - 31) - 897) div 128 = i" using 5 by arith
    moreover have "1024 < 128 * (i - 31)" "128 * (i - 31) \<le> 2048" using 5 assms by linarith+
    ultimately show ?thesis by (simp add: class_index_def)
  next
    case 6
    then have "class_size i = 256 * (i - 39)" by (simp add: class_size_def)
    moreover have "47 + (256 * (i - 39) - 1793) div 256 = i" using 6 by arith
    moreover have "2048 < 256 * (i - 39)" "256 * (i - 39) \<le> 4096" using 6 assms by linarith+
    ultimately show ?thesis by (simp add: class_index_def)
  qed
qed

lemma M_align_band: "unat (M_align b) = band_alignment (unat b)"
  by (simp add: M_align_def band_alignment_def word_le_nat_alt)

lemma M_align_of_nat: "M_align b = of_nat (band_alignment (unat b))"
  by (simp add: M_align_def band_alignment_def word_le_nat_alt)

lemma M_round_up_block_size:
  assumes "unat b < 2 ^ 63"
  shows "unat (M_round_up b) = block_size (unat b)"
proof -
  have a: "8 \<le> unat (M_align b)" "unat (M_align b) \<le> 256"
    by (simp_all add: M_align_def)
  have "unat b + unat (M_align b) < 2 ^ LENGTH(64)" using a assms by simp
  then have 1: "unat (b + M_align b) = unat b + unat (M_align b)"
    by (simp only: unat_add_lem)
  have "1 \<le> b + M_align b" using 1 a by (simp add: word_le_nat_alt)
  then have 2: "unat (b + M_align b - 1) = unat b + unat (M_align b) - 1"
    using 1 by (simp add: unat_sub)
  have "unat (M_round_up b) = (unat b + unat (M_align b) - 1) div unat (M_align b) * unat (M_align b)"
    unfolding M_round_up_def M_align_mask unat_and_not_mask 2
    by (simp add: M_align_unat)
  then show ?thesis by (simp add: block_size_def M_align_band)
qed

section \<open>Rounding a request up\<close>

text \<open>
  C5 (as amended). For every request of 1 to 4096 bytes, \<open>M_round_up bytes\<close> is
  \<open>(bytes + align - 1) & ~(align - 1)\<close>, where \<open>align\<close> is the alignment of the band of
  \<open>bytes\<close>: 8 up to 128 bytes, 16 for 129 to 256, 32 for 257 to 512, 64 for 513 to 1024,
  128 for 1025 to 2048 and 256 for 2049 to 4096. Nothing wraps around: the result is the
  least multiple of \<open>align\<close> that is at least \<open>bytes\<close>.
\<close>

theorem round_up_band_formula:
  assumes "1 \<le> unat bytes" "unat bytes \<le> 4096"
  shows "M_round_up bytes =
           (bytes + of_nat (band_alignment (unat bytes)) - 1)
             AND NOT (of_nat (band_alignment (unat bytes)) - 1)
         \<and> unat (M_round_up bytes) =
           (unat bytes + band_alignment (unat bytes) - 1) div band_alignment (unat bytes)
             * band_alignment (unat bytes)"
proof -
  have "unat bytes < 2 ^ 63" using assms by simp
  then have "unat (M_round_up bytes) = block_size (unat bytes)"
    by (rule M_round_up_block_size)
  then show ?thesis
    by (simp add: M_round_up_def M_align_of_nat block_size_def)
qed

text \<open>The theorem at a request of 200 bytes, which rounds up to 208.\<close>

theorem round_up_band_formula_witness:
  "1 \<le> unat (200 :: size_t) \<and> unat (200 :: size_t) \<le> 4096 \<and> M_round_up 200 = (200 + 16 - 1) AND NOT (16 - 1)
   \<and> unat (M_round_up 200) = 208"
  using round_up_band_formula [of 200] by (simp add: band_alignment_def)

text \<open>
  C5 as stated gives the alignment 256 to all of 1025 to 4096. A request of 1025 bytes
  is rounded up with the alignment 128, to 1152 and not to 1280.
\<close>

theorem round_up_1025_counterexample:
  "M_round_up 1025 = 1152 \<and> (1025 + 256 - 1) AND NOT (256 - 1) = (1280 :: size_t)
   \<and> M_round_up 1025 \<noteq> (1025 + 256 - 1) AND NOT (256 - 1)"
  by (simp add: M_round_up_def M_align_def)

section \<open>The mapping from byte counts to size classes\<close>

lemma class_size_le:
  assumes "i < 56"
  shows "class_size i \<le> 4096"
proof -
  have "class_size i \<le> class_size 55" using assms by (intro class_size_mono) simp
  also have "class_size 55 = 4096" by (simp add: class_size_def)
  finally show ?thesis .
qed

text \<open>
  C6 (as amended). On requests of 1 to 4096 bytes \<open>M_freelist_index\<close> is a function
  into the 56 indices 0 to 55, and it is monotonic: a larger request never maps to a
  smaller class than a smaller request. It maps to a strictly larger class exactly when
  it exceeds the block size of the smaller request, and to the same class exactly
  when both have the same block size. Block sizes are monotonic as well, and every
  block size is a multiple of the alignment of its band.
\<close>

theorem size_class_mapping:
  assumes "1 \<le> unat a" "unat a \<le> unat b" "unat b \<le> 4096"
  shows "unat (M_freelist_index b) < EFreeListsNumber
         \<and> M_freelist_index a \<le> M_freelist_index b
         \<and> (M_freelist_index a < M_freelist_index b) = (M_round_up a < b)
         \<and> (M_freelist_index a = M_freelist_index b) = (M_round_up a = M_round_up b)
         \<and> M_round_up a \<le> M_round_up b
         \<and> unat (M_align b) dvd unat (M_round_up b)"
proof -
  let ?m = "unat a" and ?n = "unat b"
  have m: "1 \<le> ?m" "?m \<le> 4096" and n: "1 \<le> ?n" "?n \<le> 4096"
    using assms by simp_all
  have ia: "unat (M_freelist_index a) = class_index ?m"
    and ib: "unat (M_freelist_index b) = class_index ?n"
    using m n by (simp_all add: M_freelist_index_unat)
  have ra: "unat (M_round_up a) = block_size ?m" and rb: "unat (M_round_up b) = block_size ?n"
    using m n by (simp_all add: M_round_up_block_size)
  have ca: "block_size ?m = class_size (class_index ?m)"
    and cb: "block_size ?n = class_size (class_index ?n)"
    using m n by (simp_all add: block_size_class)
  have ra56: "class_index ?m < 56" and rb56: "class_index ?n < 56"
    using m n by (simp_all add: class_index_range)
  have mono: "class_index ?m \<le> class_index ?n"
    using m n assms(2) by (simp add: class_index_mono)
  have strict: "(class_index ?m < class_index ?n) = (block_size ?m < ?n)"
  proof
    assume lt: "class_index ?m < class_index ?n"
    show "block_size ?m < ?n"
    proof (rule ccontr)
      assume "\<not> block_size ?m < ?n"
      then have "?n \<le> block_size ?m" by simp
      moreover have "block_size ?m \<le> 4096"
        using class_size_le [OF ra56] by (simp add: ca)
      ultimately have "class_index ?n \<le> class_index (block_size ?m)"
        using n by (simp add: class_index_mono)
      also have "\<dots> = class_index ?m" 
        using ra56 by (simp add: ca class_index_class_size)
      finally show False using lt by simp
    qed
  next
    assume lt: "block_size ?m < ?n"
    show "class_index ?m < class_index ?n"
    proof (rule ccontr)
      assume "\<not> class_index ?m < class_index ?n"
      with mono have "class_index ?m = class_index ?n" by simp
      then have "block_size ?m = block_size ?n" by (simp add: ca cb)
      then show False using lt block_size_ge [of ?n] by simp
    qed
  qed
  have same: "(class_index ?m = class_index ?n) = (block_size ?m = block_size ?n)"
    using class_index_class_size [OF ra56] class_index_class_size [OF rb56]
    by (metis ca cb)
  have "unat (M_freelist_index b) < EFreeListsNumber"
    using rb56 by (simp add: ib EFreeListsNumber_def)
  moreover have "M_freelist_index a \<le> M_freelist_index b"
    using mono by (simp add: word_le_nat_alt ia ib)
  moreover have "(M_freelist_index a < M_freelist_index b) = (M_round_up a < b)"
    using strict by (simp add: word_less_nat_alt ia ib ra)
  moreover have "(M_freelist_index a = M_freelist_index b) = (M_round_up a = M_round_up b)"
    using same by (simp add: word_unat_eq_iff ia ib ra rb)
  moreover have "M_round_up a \<le> M_round_up b"
    using mono by (simp add: word_le_nat_alt ra rb ca cb class_size_mono)
  moreover have "unat (M_align b) dvd unat (M_round_up b)"
    by (simp add: rb M_align_band block_size_dvd)
  ultimately show ?thesis by simp
qed

text \<open>The theorem at the requests of 100 and 200 bytes.\<close>

theorem size_class_mapping_witness:
  "1 \<le> unat (100 :: size_t) \<and> unat (100 :: size_t) \<le> unat (200 :: size_t) \<and> unat (200 :: size_t) \<le> 4096
   \<and> unat (M_freelist_index 200) < EFreeListsNumber
   \<and> M_freelist_index 100 \<le> M_freelist_index 200
   \<and> (M_freelist_index 100 < M_freelist_index 200) = (M_round_up 100 < 200)
   \<and> (M_freelist_index 100 = M_freelist_index 200) = (M_round_up 100 = M_round_up 200)
   \<and> M_round_up 100 \<le> M_round_up 200
   \<and> unat (M_align 200) dvd unat (M_round_up 200)"
  using size_class_mapping [of 100 200] by simp

text \<open>
  C6 as stated says that within a band a larger request never maps to a class of the
  same size as a smaller request. Requests of 1 and 2 bytes are in the same band and
  map to the same class, with blocks of 8 bytes.
\<close>

theorem equal_class_counterexample:
  "(1 :: size_t) < 2 \<and> M_align 1 = M_align 2
   \<and> M_freelist_index 2 = M_freelist_index 1 \<and> M_round_up 2 = M_round_up 1
   \<and> \<not> M_freelist_index 1 < M_freelist_index 2"
  by (simp add: M_align_def M_freelist_index_def M_round_up_def)

section \<open>Requests above 4096 bytes\<close>

lemma sys_malloc_fields [simp]:
  "start_free (snd (sys_malloc n s)) = start_free s"
  "end_free (snd (sys_malloc n s)) = end_free s"
  "heap_size (snd (sys_malloc n s)) = heap_size s"
  "free_list (snd (sys_malloc n s)) = free_list s"
  "next_field (snd (sys_malloc n s)) = next_field s"
  "sys_calls (snd (sys_malloc n s)) = sys_calls s @ [Malloc n]"
  by (simp_all add: sys_malloc_def split: list.split)

lemma sys_malloc_fails: "(fst (sys_malloc n s) = 0) = malloc_fails s"
  by (simp add: sys_malloc_def malloc_fails_def split: list.split)

text \<open>
  C9. For every \<open>n\<close> above 4096, \<open>allocate n\<close> returns what \<open>std::malloc n\<close> answers
  and \<open>deallocate p n\<close> calls \<open>std::free p\<close>. Neither changes the free-list table, the
  bounds \<open>start_free\<close> and \<open>end_free\<close> of the pool, \<open>heap_size\<close> or the memory: the only
  change is the call recorded for the system allocator.
\<close>

theorem large_requests_bypass_pool:
  assumes "4096 < n"
  shows "fst (allocate fuel n s) = Returned (fst (sys_malloc n s))
         \<and> sys_calls (snd (allocate fuel n s)) = sys_calls s @ [Malloc n]
         \<and> free_list (snd (allocate fuel n s)) = free_list s
         \<and> start_free (snd (allocate fuel n s)) = start_free s
         \<and> end_free (snd (allocate fuel n s)) = end_free s
         \<and> heap_size (snd (allocate fuel n s)) = heap_size s
         \<and> next_field (snd (allocate fuel n s)) = next_field s
         \<and> deallocate p n s = (Returned (), s\<lparr>sys_calls := sys_calls s @ [Free p]\<rparr>)"
  using assms
  by (simp add: allocate_def deallocate_def sys_free_def ESmallObjectBytes_def split_beta)

text \<open>
  The theorem at a request of 4097 bytes in the initial state.
\<close>

theorem large_requests_bypass_pool_witness:
  "(4096 :: size_t) < 4097
   \<and> allocate 2 4097 (init_state (\<lambda>a. 0) [0x10000])
       = (Returned 0x10000, (init_state (\<lambda>a. 0) [])\<lparr>sys_calls := [Malloc 4097]\<rparr>)
   \<and> deallocate 0x10000 4097 (init_state (\<lambda>a. 0) [])
       = (Returned (), (init_state (\<lambda>a. 0) [])\<lparr>sys_calls := [Free 0x10000]\<rparr>)"
  using large_requests_bypass_pool [of 4097 2 "init_state (\<lambda>a. 0) [0x10000]" "0x10000"]
    large_requests_bypass_pool [of 4097 2 "init_state (\<lambda>a. 0) []" "0x10000"]
  by (simp add: init_state_def allocate_def sys_malloc_def ESmallObjectBytes_def)

section \<open>The search for a free block after a failed system allocation\<close>

declare salvage_scan.simps [simp del]

lemma unat_add_align:
  assumes "unat bytes \<le> 4096"
  shows "unat (bytes + M_align bytes) = unat bytes + band_alignment (unat bytes)"
proof -
  have "unat (M_align bytes) \<le> 256" by (simp add: M_align_def)
  then have "unat bytes + unat (M_align bytes) < 2 ^ LENGTH(64)" using assms by simp
  then have "unat (bytes + M_align bytes) = unat bytes + unat (M_align bytes)"
    by (simp only: unat_add_lem)
  then show ?thesis by (simp add: M_align_band)
qed

lemma salvage_scan_result:
  assumes "1 \<le> unat bytes"
  shows "case salvage_scan bytes fl of
           Found b \<Rightarrow>
             unat bytes \<le> unat b \<and> unat b \<le> 4096 \<and> fl (class_index (unat b)) \<noteq> 0 \<and>
             class_index (unat bytes) \<le> class_index (unat b) \<and>
             (\<forall>i. class_index (unat bytes) \<le> i \<and> i < class_index (unat b) \<longrightarrow> fl i = 0)
         | Not_found \<Rightarrow>
             (unat bytes \<le> 4096 \<longrightarrow>
               (\<forall>i. class_index (unat bytes) \<le> i \<and> i < 56 \<longrightarrow> fl i = 0))
         | Out_of_table \<Rightarrow> False"
  using assms
proof (induction bytes fl rule: salvage_scan.induct)
  case (1 bytes fl)
  show ?case
  proof (cases "bytes \<le> ESmallObjectBytes")
    case False
    then show ?thesis
      by (simp add: salvage_scan.simps [of bytes] ESmallObjectBytes_def word_le_nat_alt)
  next
    case True
    then have le: "unat bytes \<le> 4096" by (simp add: ESmallObjectBytes_def word_le_nat_alt)
    have idx: "unat (M_freelist_index bytes) = class_index (unat bytes)"
      using 1(2) le by (simp add: M_freelist_index_unat)
    have r: "class_index (unat bytes) < 56" using 1(2) le by (simp add: class_index_range)
    show ?thesis
    proof (cases "fl (class_index (unat bytes)) = 0")
      case False
      then show ?thesis using True le r
        by (auto simp add: salvage_scan.simps [of bytes] idx EFreeListsNumber_def)
    next
      case empty: True
      let ?next = "bytes + M_align bytes"
      have nx: "unat ?next = unat bytes + band_alignment (unat bytes)"
        using le by (rule unat_add_align)
      have eq: "salvage_scan bytes fl = salvage_scan ?next fl"
        using True r empty by (simp add: salvage_scan.simps [of bytes] idx EFreeListsNumber_def)
      have "1 \<le> unat ?next" using nx 1(2) by simp
      then have IH: "case salvage_scan ?next fl of
           Found b \<Rightarrow>
             unat ?next \<le> unat b \<and> unat b \<le> 4096 \<and> fl (class_index (unat b)) \<noteq> 0 \<and>
             class_index (unat ?next) \<le> class_index (unat b) \<and>
             (\<forall>i. class_index (unat ?next) \<le> i \<and> i < class_index (unat b) \<longrightarrow> fl i = 0)
         | Not_found \<Rightarrow>
             (unat ?next \<le> 4096 \<longrightarrow>
               (\<forall>i. class_index (unat ?next) \<le> i \<and> i < 56 \<longrightarrow> fl i = 0))
         | Out_of_table \<Rightarrow> False"
        using True r empty by (intro 1(1) [OF True idx [symmetric]]) (simp_all add: EFreeListsNumber_def idx)
      show ?thesis
      proof (cases "salvage_scan ?next fl")
        case (Found b)
        with IH have b: "unat ?next \<le> unat b" "unat b \<le> 4096" "fl (class_index (unat b)) \<noteq> 0"
          "class_index (unat ?next) \<le> class_index (unat b)"
          "\<forall>i. class_index (unat ?next) \<le> i \<and> i < class_index (unat b) \<longrightarrow> fl i = 0"
          by simp_all
        have step: "class_index (unat ?next) = class_index (unat bytes) + 1"
          using b(1,2) 1(2) by (simp add: nx class_index_step)
        have "\<forall>i. class_index (unat bytes) \<le> i \<and> i < class_index (unat b) \<longrightarrow> fl i = 0"
        proof (intro allI impI)
          fix i assume i: "class_index (unat bytes) \<le> i \<and> i < class_index (unat b)"
          show "fl i = 0"
          proof (cases "i = class_index (unat bytes)")
            case True then show ?thesis using empty by simp
          next
            case False
            with i step have "class_index (unat ?next) \<le> i" by simp
            with i b(5) show ?thesis by simp
          qed
        qed
        then show ?thesis using Found b step nx by (simp add: eq)
      next
        case Not_found
        have "\<forall>i. class_index (unat bytes) \<le> i \<and> i < 56 \<longrightarrow> fl i = 0"
        proof (intro allI impI)
          fix i assume i: "class_index (unat bytes) \<le> i \<and> i < 56"
          show "fl i = 0"
          proof (cases "i = class_index (unat bytes)")
            case True then show ?thesis using empty by simp
          next
            case ne: False
            show ?thesis
            proof (cases "unat ?next \<le> 4096")
              case True
              then have "class_index (unat ?next) = class_index (unat bytes) + 1"
                using 1(2) by (simp add: nx class_index_step)
              with i ne have "class_index (unat ?next) \<le> i" by simp
              with IH Not_found True i show ?thesis by simp
            next
              case False
              then have "class_index (unat bytes) = 55"
                using class_index_last [of "unat bytes"] 1(2) le by (simp add: nx)
              with i ne show ?thesis by simp
            qed
          qed
        qed
        then show ?thesis using Not_found by (simp add: eq)
      next
        case Out_of_table
        with IH show ?thesis by simp
      qed
    qed
  qed
qed

section \<open>The steps of \<open>M_chunk_alloc\<close>\<close>

lemma unat_times_10:
  assumes "unat (sz :: size_t) \<le> 4096"
  shows "unat (sz * 10) = unat sz * 10"
proof -
  have "unat sz * unat (10 :: size_t) < 2 ^ LENGTH(64)" using assms by simp
  then have "unat (sz * 10) = unat sz * unat (10 :: size_t)"
    by (simp only: unat_mult_lem)
  then show ?thesis by simp
qed

lemma M_round_up_le:
  assumes "unat y < 2 ^ 60"
  shows "unat (M_round_up y) \<le> unat y + 255"
proof -
  have a: "1 \<le> unat (M_align y)" "unat (M_align y) \<le> 256"
    by (simp_all add: M_align_def)
  have "unat y + unat (M_align y) < 2 ^ LENGTH(64)" using a assms by simp
  then have 1: "unat (y + M_align y) = unat y + unat (M_align y)"
    by (simp only: unat_add_lem)
  have "1 \<le> y + M_align y" using 1 a by (simp add: word_le_nat_alt)
  then have 2: "unat (y + M_align y - 1) = unat y + unat (M_align y) - 1"
    using 1 by (simp add: unat_sub)
  have "M_round_up y \<le> y + M_align y - 1"
    unfolding M_round_up_def by (rule word_and_le2)
  then have "unat (M_round_up y) \<le> unat y + unat (M_align y) - 1"
    by (simp add: word_le_nat_alt 2)
  then show ?thesis using a by linarith
qed

lemma growth_no_wrap:
  assumes "unat need \<le> 40960"
  shows "unat (push_bit 1 need + M_round_up (drop_bit 4 hs))
           = 2 * unat need + unat (M_round_up (drop_bit 4 hs))"
proof -
  have "unat (drop_bit 4 hs) = drop_bit 4 (unat hs)"
    by (rule unat_drop_bit_eq)
  also have "\<dots> = unat hs div 16" by (simp add: drop_bit_eq_div)
  finally have "unat (drop_bit 4 hs) = unat hs div 16" .
  moreover have "unat hs < 2 ^ 64" using unsigned_less [of hs] by simp
  ultimately have d: "unat (drop_bit 4 hs) < 2 ^ 60" by simp
  then have r: "unat (M_round_up (drop_bit 4 hs)) \<le> 2 ^ 60 + 255"
    using M_round_up_le [of "drop_bit 4 hs"] by linarith
  have pn: "push_bit 1 need = need + need" by (simp add: push_bit_eq_mult)
  have "unat need + unat need < 2 ^ LENGTH(64)" using assms by simp
  then have "unat (need + need) = unat need + unat need" by (simp only: unat_add_lem)
  then have p: "unat (push_bit 1 need) = 2 * unat need" by (simp only: pn mult_2)
  have "unat (push_bit 1 need) + unat (M_round_up (drop_bit 4 hs)) < 2 ^ LENGTH(64)"
    using p r assms by simp
  then have "unat (push_bit 1 need + M_round_up (drop_bit 4 hs))
      = unat (push_bit 1 need) + unat (M_round_up (drop_bit 4 hs))"
    by (simp only: unat_add_lem)
  then show ?thesis by (simp only: p)
qed

lemma bytes_to_get_ge:
  assumes "unat need \<le> 40960"
  shows "need \<le> bytes_to_get need hs"
proof -
  have "unat need \<le> unat (push_bit 1 need + M_round_up (drop_bit 4 hs))"
    using growth_no_wrap [OF assms, of hs] by simp
  then have "need \<le> push_bit 1 need + M_round_up (drop_bit 4 hs)"
    by (simp add: word_le_nat_alt)
  then show ?thesis by (simp add: bytes_to_get_def Let_def)
qed

lemma bytes_to_get_cap: "bytes_to_get need hs \<le> max need MAX_CHUNK"
proof (cases "MAX_CHUNK < push_bit 1 need + M_round_up (drop_bit 4 hs)")
  case True
  then show ?thesis by (simp add: bytes_to_get_def Let_def)
next
  case False
  then have "push_bit 1 need + M_round_up (drop_bit 4 hs) \<le> MAX_CHUNK" by simp
  also have "MAX_CHUNK \<le> max need MAX_CHUNK" by simp
  finally show ?thesis using False by (simp add: bytes_to_get_def Let_def)
qed

lemma chunk_alloc_all:
  assumes "sz * nblock \<le> end_free s - start_free s"
  shows "M_chunk_alloc (Suc fuel) sz nblock s
           = (Returned (start_free s), nblock, s\<lparr>start_free := start_free s + sz * nblock\<rparr>)"
  using assms by simp

lemma recycle_leftover_fields:
  assumes "recycle_leftover pool_bytes s = Some s1"
  shows "start_free s1 = start_free s" "end_free s1 = end_free s" "heap_size s1 = heap_size s"
    "malloc_results s1 = malloc_results s" "sys_calls s1 = sys_calls s"
  using assms by (auto simp add: recycle_leftover_def Let_def split: if_splits)

lemma pool_less_need:
  assumes "1 \<le> unat sz" "unat sz \<le> 4096" "pool < (sz :: size_t)"
  shows "\<not> sz * 10 \<le> pool" "\<not> sz \<le> pool"
proof -
  have "unat pool < unat sz" using assms(3) by (simp add: word_less_nat_alt)
  then have "unat pool < unat (sz * 10)" using assms by (simp add: unat_times_10)
  then show "\<not> sz * 10 \<le> pool" by (simp add: word_le_nat_alt)
  show "\<not> sz \<le> pool" using assms(3) by simp
qed

lemma chunk_alloc_grow:
  assumes sz: "1 \<le> unat sz" "unat sz \<le> 4096"
    and pool: "end_free s - start_free s < sz"
    and rec: "recycle_leftover (end_free s - start_free s) s = Some s1"
    and ok: "\<not> malloc_fails s1"
  shows "M_chunk_alloc (Suc (Suc fuel)) sz 10 s =
           (Returned (fst (sys_malloc (bytes_to_get (sz * 10) (heap_size s)) s1)), 10,
            (snd (sys_malloc (bytes_to_get (sz * 10) (heap_size s)) s1))
              \<lparr>start_free := fst (sys_malloc (bytes_to_get (sz * 10) (heap_size s)) s1) + sz * 10,
               end_free := fst (sys_malloc (bytes_to_get (sz * 10) (heap_size s)) s1)
                             + bytes_to_get (sz * 10) (heap_size s),
               heap_size := heap_size s + bytes_to_get (sz * 10) (heap_size s)\<rparr>)"
proof -
  let ?get = "bytes_to_get (sz * 10) (heap_size s)"
  let ?p = "fst (sys_malloc ?get s1)"
  let ?s2 = "snd (sys_malloc ?get s1)"
  have p: "?p \<noteq> 0" using ok by (simp add: sys_malloc_fails)
  have hs: "heap_size s1 = heap_size s" using rec by (rule recycle_leftover_fields)
  have "unat (sz * 10) \<le> 40960" using sz by (simp add: unat_times_10)
  then have ge: "sz * 10 \<le> ?get" by (rule bytes_to_get_ge)
  let ?s4 = "?s2\<lparr>start_free := ?p, end_free := ?p + ?get, heap_size := heap_size s + ?get\<rparr>"
  have inner: "M_chunk_alloc (Suc fuel) sz 10 ?s4
      = (Returned (start_free ?s4), 10, ?s4\<lparr>start_free := start_free ?s4 + sz * 10\<rparr>)"
    using ge by (intro chunk_alloc_all) simp
  have "M_chunk_alloc (Suc (Suc fuel)) sz 10 s = M_chunk_alloc (Suc fuel) sz 10 ?s4"
    using pool_less_need [OF sz pool] rec p
    by (simp add: Let_def split_beta hs)
  then show ?thesis using inner by simp
qed

lemma chunk_alloc_oom:
  assumes sz: "1 \<le> unat sz" "unat sz \<le> 4096"
    and pool: "end_free s - start_free s < sz"
    and rec: "recycle_leftover (end_free s - start_free s) s = Some s1"
    and fail: "malloc_fails s1"
    and scan: "salvage_scan sz (free_list s1) = Not_found"
  shows "M_chunk_alloc (Suc fuel) sz 10 s =
           (Bad_alloc, 10,
            (snd (sys_malloc (bytes_to_get (sz * 10) (heap_size s)) s1))
              \<lparr>start_free := 0, end_free := 0\<rparr>)"
proof -
  let ?get = "bytes_to_get (sz * 10) (heap_size s)"
  have p: "fst (sys_malloc ?get s1) = 0" using fail by (simp add: sys_malloc_fails)
  have hs: "heap_size s1 = heap_size s" using rec by (rule recycle_leftover_fields)
  show ?thesis
    using pool_less_need [OF sz pool] rec p scan
    by (simp add: Let_def split_beta hs)
qed

lemma chunk_alloc_serve:
  assumes sz: "1 \<le> unat sz" "unat sz \<le> 4096"
    and pool: "sz \<le> end_free s - start_free s"
  shows "M_chunk_alloc (Suc fuel) sz 10 s = M_chunk_alloc (Suc 0) sz 10 s"
    and "fst (M_chunk_alloc (Suc 0) sz 10 s) = Returned (start_free s)"
    and "1 \<le> fst (snd (M_chunk_alloc (Suc 0) sz 10 s))"
    and "fst (snd (M_chunk_alloc (Suc 0) sz 10 s)) \<le> 10"
    and "sys_calls (snd (snd (M_chunk_alloc (Suc 0) sz 10 s))) = sys_calls s"
    and "free_list (snd (snd (M_chunk_alloc (Suc 0) sz 10 s))) = free_list s"
proof -
  let ?pool = "end_free s - start_free s"
  show "M_chunk_alloc (Suc fuel) sz 10 s = M_chunk_alloc (Suc 0) sz 10 s"
    using pool by (simp add: Let_def)
  show "fst (M_chunk_alloc (Suc 0) sz 10 s) = Returned (start_free s)"
    using pool by (simp add: Let_def)
  show "sys_calls (snd (snd (M_chunk_alloc (Suc 0) sz 10 s))) = sys_calls s"
    using pool by (simp add: Let_def)
  show "free_list (snd (snd (M_chunk_alloc (Suc 0) sz 10 s))) = free_list s"
    using pool by (simp add: Let_def)
  have d: "unat (?pool div sz) = unat ?pool div unat sz" by (rule unat_div)
  have p: "unat sz \<le> unat ?pool" using pool by (simp add: word_le_nat_alt)
  then have "1 \<le> unat (?pool div sz)" using sz
    by (simp add: d Suc_le_eq div_greater_zero_iff)
  then have 1: "1 \<le> ?pool div sz" by (simp add: word_le_nat_alt)
  then show "1 \<le> fst (snd (M_chunk_alloc (Suc 0) sz 10 s))"
    using pool by (simp add: Let_def)
  have "?pool div sz \<le> 10" if "\<not> sz * 10 \<le> ?pool"
  proof -
    from that have "unat ?pool < unat sz * 10"
      using sz by (simp add: word_le_nat_alt unat_times_10)
    then have "unat ?pool div unat sz < 10" using sz
      by (simp add: less_mult_imp_div_less mult.commute)
    then show ?thesis by (simp add: word_le_nat_alt d)
  qed
  then show "fst (snd (M_chunk_alloc (Suc 0) sz 10 s)) \<le> 10"
    using pool by (simp add: Let_def)
qed

lemma chunk_alloc_undefined:
  assumes sz: "1 \<le> unat sz" "unat sz \<le> 4096"
    and pool: "end_free s - start_free s < sz"
    and rec: "recycle_leftover (end_free s - start_free s) s = None"
  shows "M_chunk_alloc (Suc fuel) sz 10 s = (Undefined, 10, s)"
  using pool_less_need [OF sz pool] rec by (simp add: Let_def)

lemma chunk_alloc_salvage_retry:
  assumes sz: "1 \<le> unat sz" "unat sz \<le> 4096"
    and pool: "end_free s - start_free s < sz"
    and rec: "recycle_leftover (end_free s - start_free s) s = Some s1"
    and fail: "malloc_fails s1"
    and scan: "salvage_scan sz (free_list s1) = Found b"
  shows "M_chunk_alloc (Suc (Suc fuel)) sz 10 s =
           M_chunk_alloc (Suc 0) sz 10
             ((snd (sys_malloc (bytes_to_get (sz * 10) (heap_size s)) s1))
                \<lparr>free_list := (free_list s1)
                   (class_index (unat b) := next_field s1 (free_list s1 (class_index (unat b)))),
                 start_free := free_list s1 (class_index (unat b)),
                 end_free := free_list s1 (class_index (unat b)) + b\<rparr>)"
proof -
  let ?get = "bytes_to_get (sz * 10) (heap_size s)"
  let ?s2 = "snd (sys_malloc ?get s1)"
  let ?i = "class_index (unat b)"
  let ?blk = "free_list s1 ?i"
  have p: "fst (sys_malloc ?get s1) = 0" using fail by (simp add: sys_malloc_fails)
  have hs: "heap_size s1 = heap_size s" using rec by (rule recycle_leftover_fields)
  have b: "unat sz \<le> unat b" "unat b \<le> 4096"
    using salvage_scan_result [OF sz(1), of "free_list s1"] scan by simp_all
  then have idx: "unat (M_freelist_index b) = ?i"
    using sz by (simp add: M_freelist_index_unat)
  let ?s4 = "?s2\<lparr>free_list := (free_list s1)(?i := next_field s1 ?blk),
                 start_free := ?blk, end_free := ?blk + b\<rparr>"
  have enough: "sz \<le> end_free ?s4 - start_free ?s4" using b by (simp add: word_le_nat_alt)
  have "M_chunk_alloc (Suc (Suc fuel)) sz 10 s = M_chunk_alloc (Suc fuel) sz 10 ?s4"
    using pool_less_need [OF sz pool] rec p scan
    by (simp add: Let_def split_beta hs idx)
  also have "\<dots> = M_chunk_alloc (Suc 0) sz 10 ?s4"
    using sz enough by (rule chunk_alloc_serve(1))
  finally show ?thesis .
qed

section \<open>The retry of \<open>M_chunk_alloc\<close> ends\<close>

lemma salvage_scan_in_table:
  assumes "1 \<le> unat sz"
  shows "salvage_scan sz fl \<noteq> Out_of_table"
  using salvage_scan_result [OF assms, of fl] by (cases "salvage_scan sz fl") simp_all

text \<open>
  C8. For every block size of 1 to 4096 bytes and the 10 blocks \<open>M_refill\<close> asks for,
  a call of \<open>M_chunk_alloc\<close> calls itself at most once: with room for one retry the
  result is the same as with room for any number of them, and it is never that the
  bound was used up. A call that returns serves at least one block and at most 10; it
  throws \<open>std::bad_alloc\<close> only when the pool holds less than one block, the system
  allocation fails and the search finds no free block, and it is undefined only when the
  tail of the pool cannot be put on a free list.
  \<^item> When the pool holds at least one block, the call returns at once, from the pool.
  \<^item> After a successful system allocation the region installed has \<open>bytes_to_get\<close>
    bytes, at least the \<open>sz * 10\<close> needed, and the retry is a call that does not call
    itself: it returns the start of the region and serves all 10 blocks.
  \<^item> After a salvage the region adopted is the block found, of \<open>b\<close> bytes with
    \<open>sz \<le> b\<close>, and the retry is a call that does not call itself: it returns that block
    and serves at least one block.
\<close>

theorem chunk_alloc_retry_bounded:
  assumes sz: "1 \<le> unat sz" "unat sz \<le> 4096"
  shows "M_chunk_alloc (Suc (Suc fuel)) sz 10 s = M_chunk_alloc (Suc (Suc 0)) sz 10 s
         \<and> (case fst (M_chunk_alloc (Suc (Suc 0)) sz 10 s) of
               Returned p \<Rightarrow>
                 1 \<le> fst (snd (M_chunk_alloc (Suc (Suc 0)) sz 10 s)) \<and>
                 fst (snd (M_chunk_alloc (Suc (Suc 0)) sz 10 s)) \<le> 10
             | Bad_alloc \<Rightarrow>
                 end_free s - start_free s < sz \<and>
                 (case recycle_leftover (end_free s - start_free s) s of
                    None \<Rightarrow> False
                  | Some s1 \<Rightarrow> malloc_fails s1 \<and> salvage_scan sz (free_list s1) = Not_found)
             | Falls_off_end \<Rightarrow> False
             | Undefined \<Rightarrow>
                 end_free s - start_free s < sz \<and>
                 recycle_leftover (end_free s - start_free s) s = None
             | Out_of_fuel \<Rightarrow> False)
         \<and> sz * 10 \<le> bytes_to_get (sz * 10) hs
         \<and> (sz \<le> end_free s - start_free s \<longrightarrow>
              M_chunk_alloc (Suc fuel) sz 10 s = M_chunk_alloc (Suc 0) sz 10 s \<and>
              fst (M_chunk_alloc (Suc 0) sz 10 s) = Returned (start_free s))
         \<and> (end_free s - start_free s < sz \<and>
            recycle_leftover (end_free s - start_free s) s = Some s1 \<and> \<not> malloc_fails s1 \<longrightarrow>
              (let get = bytes_to_get (sz * 10) (heap_size s);
                   p = fst (sys_malloc get s1);
                   s4 = (snd (sys_malloc get s1))
                          \<lparr>start_free := p, end_free := p + get,
                           heap_size := heap_size s + get\<rparr> in
               p \<noteq> 0 \<and>
               sz * 10 \<le> end_free s4 - start_free s4 \<and>
               M_chunk_alloc (Suc (Suc fuel)) sz 10 s = M_chunk_alloc (Suc 0) sz 10 s4 \<and>
               M_chunk_alloc (Suc 0) sz 10 s4
                 = (Returned p, 10, s4\<lparr>start_free := p + sz * 10\<rparr>)))
         \<and> (end_free s - start_free s < sz \<and>
            recycle_leftover (end_free s - start_free s) s = Some s1 \<and> malloc_fails s1 \<and>
            salvage_scan sz (free_list s1) = Found b \<longrightarrow>
              (let get = bytes_to_get (sz * 10) (heap_size s);
                   i = unat (M_freelist_index b);
                   block = free_list s1 i;
                   s4 = (snd (sys_malloc get s1))
                          \<lparr>free_list := (free_list s1)(i := next_field s1 block),
                           start_free := block, end_free := block + b\<rparr> in
               block \<noteq> 0 \<and>
               sz \<le> end_free s4 - start_free s4 \<and>
               M_chunk_alloc (Suc (Suc fuel)) sz 10 s = M_chunk_alloc (Suc 0) sz 10 s4 \<and>
               fst (M_chunk_alloc (Suc 0) sz 10 s4) = Returned block \<and>
               1 \<le> fst (snd (M_chunk_alloc (Suc 0) sz 10 s4)) \<and>
               fst (snd (M_chunk_alloc (Suc 0) sz 10 s4)) \<le> 10))"
proof -
  let ?pool = "end_free s - start_free s"
  let ?get = "bytes_to_get (sz * 10) (heap_size s)"
  have need: "unat (sz * 10) \<le> 40960" using sz by (simp add: unat_times_10)
  then have ge: "sz * 10 \<le> bytes_to_get (sz * 10) hs" by (rule bytes_to_get_ge)
  have general: "M_chunk_alloc (Suc (Suc fuel)) sz 10 s = M_chunk_alloc (Suc (Suc 0)) sz 10 s
         \<and> (case fst (M_chunk_alloc (Suc (Suc 0)) sz 10 s) of
               Returned p \<Rightarrow>
                 1 \<le> fst (snd (M_chunk_alloc (Suc (Suc 0)) sz 10 s)) \<and>
                 fst (snd (M_chunk_alloc (Suc (Suc 0)) sz 10 s)) \<le> 10
             | Bad_alloc \<Rightarrow>
                 ?pool < sz \<and>
                 (case recycle_leftover ?pool s of
                    None \<Rightarrow> False
                  | Some s1 \<Rightarrow> malloc_fails s1 \<and> salvage_scan sz (free_list s1) = Not_found)
             | Falls_off_end \<Rightarrow> False
             | Undefined \<Rightarrow> ?pool < sz \<and> recycle_leftover ?pool s = None
             | Out_of_fuel \<Rightarrow> False)"
  proof (cases "sz \<le> ?pool")
    case True
    note serve = chunk_alloc_serve [OF sz True]
    have "M_chunk_alloc (Suc (Suc fuel)) sz 10 s = M_chunk_alloc (Suc 0) sz 10 s"
      "M_chunk_alloc (Suc (Suc 0)) sz 10 s = M_chunk_alloc (Suc 0) sz 10 s"
      by (rule serve(1))+
    then show ?thesis using serve(2,3,4) by simp
  next
    case False
    then have pool: "?pool < sz" by simp
    show ?thesis
    proof (cases "recycle_leftover ?pool s")
      case None
      show ?thesis using pool None
        by (simp only: chunk_alloc_undefined [OF sz pool None]) simp
    next
      case (Some s1)
      show ?thesis
      proof (cases "malloc_fails s1")
        case False
        show ?thesis
          by (simp only: chunk_alloc_grow [OF sz pool Some False]) simp
      next
        case True
        show ?thesis
        proof (cases "salvage_scan sz (free_list s1)")
          case (Found b)
          let ?s4 = "(snd (sys_malloc ?get s1))
                \<lparr>free_list := (free_list s1)
                   (class_index (unat b) := next_field s1 (free_list s1 (class_index (unat b)))),
                 start_free := free_list s1 (class_index (unat b)),
                 end_free := free_list s1 (class_index (unat b)) + b\<rparr>"
          have b: "unat sz \<le> unat b"
            using salvage_scan_result [OF sz(1), of "free_list s1"] Found by simp
          then have enough: "sz \<le> end_free ?s4 - start_free ?s4"
            by (simp add: word_le_nat_alt)
          note serve = chunk_alloc_serve [OF sz enough]
          show ?thesis
            using serve(2,3,4)
            by (simp only: chunk_alloc_salvage_retry [OF sz pool Some True Found]) simp
        next
          case Not_found
          show ?thesis using pool Some True Not_found
            by (simp only: chunk_alloc_oom [OF sz pool Some True Not_found]) simp
        next
          case Out_of_table
          then show ?thesis using salvage_scan_in_table [OF sz(1)] by simp
        qed
      qed
    qed
  qed
  have enough: "M_chunk_alloc (Suc fuel) sz 10 s = M_chunk_alloc (Suc 0) sz 10 s \<and>
      fst (M_chunk_alloc (Suc 0) sz 10 s) = Returned (start_free s)"
    if "sz \<le> ?pool"
    using chunk_alloc_serve(1,2) [OF sz that] by blast
  have grow: "(let get = ?get;
                   p = fst (sys_malloc get s1);
                   s4 = (snd (sys_malloc get s1))
                          \<lparr>start_free := p, end_free := p + get,
                           heap_size := heap_size s + get\<rparr> in
               p \<noteq> 0 \<and>
               sz * 10 \<le> end_free s4 - start_free s4 \<and>
               M_chunk_alloc (Suc (Suc fuel)) sz 10 s = M_chunk_alloc (Suc 0) sz 10 s4 \<and>
               M_chunk_alloc (Suc 0) sz 10 s4
                 = (Returned p, 10, s4\<lparr>start_free := p + sz * 10\<rparr>))"
    if pool: "?pool < sz" and rec: "recycle_leftover ?pool s = Some s1" and ok: "\<not> malloc_fails s1"
  proof -
    let ?p = "fst (sys_malloc ?get s1)"
    let ?s4 = "(snd (sys_malloc ?get s1))
                 \<lparr>start_free := ?p, end_free := ?p + ?get, heap_size := heap_size s + ?get\<rparr>"
    have p: "?p \<noteq> 0" using ok by (simp add: sys_malloc_fails)
    have "sz * 10 \<le> ?get" using need by (rule bytes_to_get_ge)
    then have room: "sz * 10 \<le> end_free ?s4 - start_free ?s4" by simp
    have inner: "M_chunk_alloc (Suc 0) sz 10 ?s4
        = (Returned (start_free ?s4), 10, ?s4\<lparr>start_free := start_free ?s4 + sz * 10\<rparr>)"
      using room by (rule chunk_alloc_all)
    have sf: "start_free ?s4 = ?p" by simp
    have inner': "M_chunk_alloc (Suc 0) sz 10 ?s4
        = (Returned ?p, 10, ?s4\<lparr>start_free := ?p + sz * 10\<rparr>)"
      using inner by (simp only: sf)
    have outer: "M_chunk_alloc (Suc (Suc fuel)) sz 10 s = M_chunk_alloc (Suc 0) sz 10 ?s4"
      by (simp only: chunk_alloc_grow [OF sz pool rec ok] inner') simp
    show ?thesis unfolding Let_def using p room outer inner' by blast
  qed
  have salvage: "(let get = ?get;
                   i = unat (M_freelist_index b);
                   block = free_list s1 i;
                   s4 = (snd (sys_malloc get s1))
                          \<lparr>free_list := (free_list s1)(i := next_field s1 block),
                           start_free := block, end_free := block + b\<rparr> in
               block \<noteq> 0 \<and>
               sz \<le> end_free s4 - start_free s4 \<and>
               M_chunk_alloc (Suc (Suc fuel)) sz 10 s = M_chunk_alloc (Suc 0) sz 10 s4 \<and>
               fst (M_chunk_alloc (Suc 0) sz 10 s4) = Returned block \<and>
               1 \<le> fst (snd (M_chunk_alloc (Suc 0) sz 10 s4)) \<and>
               fst (snd (M_chunk_alloc (Suc 0) sz 10 s4)) \<le> 10)"
    if pool: "?pool < sz" and rec: "recycle_leftover ?pool s = Some s1"
      and fail: "malloc_fails s1" and scan: "salvage_scan sz (free_list s1) = Found b"
  proof -
    have b: "unat sz \<le> unat b" "unat b \<le> 4096" "free_list s1 (class_index (unat b)) \<noteq> 0"
      using salvage_scan_result [OF sz(1), of "free_list s1"] scan by simp_all
    have idx: "unat (M_freelist_index b) = class_index (unat b)"
      using b sz by (simp add: M_freelist_index_unat)
    let ?i = "class_index (unat b)"
    let ?blk = "free_list s1 ?i"
    let ?s4 = "(snd (sys_malloc ?get s1))
                \<lparr>free_list := (free_list s1)(?i := next_field s1 ?blk),
                 start_free := ?blk, end_free := ?blk + b\<rparr>"
    have room: "sz \<le> end_free ?s4 - start_free ?s4"
      using b by (simp add: word_le_nat_alt)
    note serve = chunk_alloc_serve [OF sz room]
    have sf: "start_free ?s4 = ?blk" by simp
    have ret: "fst (M_chunk_alloc (Suc 0) sz 10 ?s4) = Returned ?blk"
      by (simp only: serve(2) sf)
    have outer: "M_chunk_alloc (Suc (Suc fuel)) sz 10 s = M_chunk_alloc (Suc 0) sz 10 ?s4"
      by (rule chunk_alloc_salvage_retry [OF sz pool rec fail scan])
    show ?thesis unfolding Let_def idx using b(3) room outer ret serve(3,4) by blast
  qed
  from general ge enough grow salvage show ?thesis by blast
qed

text \<open>
  The theorem at the block size 208 in the initial state, where the system allocation
  succeeds (a call with no room for a retry gives up, the retry serves the 10 blocks),
  and at the block size 16 when the system allocation fails and the list 5 holds a block
  of 48 bytes (the retry serves 3 blocks from it).
\<close>

theorem chunk_alloc_retry_bounded_witness:
  "1 \<le> unat (208 :: size_t) \<and> unat (208 :: size_t) \<le> 4096
   \<and> fst (M_chunk_alloc (Suc 0) 208 10 (init_state (\<lambda>a. 0) [0x10000])) = Out_of_fuel
   \<and> (208 :: size_t) * 10 \<le> bytes_to_get (208 * 10) 0
   \<and> recycle_leftover 0 (init_state (\<lambda>a. 0) [0x10000]) = Some (init_state (\<lambda>a. 0) [0x10000])
   \<and> \<not> malloc_fails (init_state (\<lambda>a. 0) [0x10000])
   \<and> M_chunk_alloc (Suc (Suc 5)) 208 10 (init_state (\<lambda>a. 0) [0x10000])
       = (Returned 0x10000, 10,
          (init_state (\<lambda>a. 0) [])\<lparr>start_free := 0x10000 + 2080, end_free := 0x10000 + 4160,
             heap_size := 4160, sys_calls := [Malloc 4160]\<rparr>)
   \<and> 1 \<le> unat (16 :: size_t) \<and> unat (16 :: size_t) \<le> 4096
   \<and> malloc_fails ((init_state (\<lambda>a. 0) [])\<lparr>free_list := (\<lambda>i. 0)(5 := 0x2000)\<rparr>)
   \<and> salvage_scan 16 ((\<lambda>i. 0)(5 := 0x2000)) = Found 48
   \<and> fst (M_chunk_alloc (Suc (Suc 7)) 16 10
         ((init_state (\<lambda>a. 0) [])\<lparr>free_list := (\<lambda>i. 0)(5 := 0x2000)\<rparr>)) = Returned 0x2000
   \<and> M_chunk_alloc (Suc (Suc 0)) 16 10
         ((init_state (\<lambda>a. 0) [])\<lparr>free_list := (\<lambda>i. 0)(5 := 0x2000)\<rparr>)
       = (Returned 0x2000, 3,
          (init_state (\<lambda>a. 0) [])\<lparr>sys_calls := [Malloc 320], start_free := 0x2030,
             end_free := 0x2030\<rparr>)"
proof -
  let ?s = "init_state (\<lambda>a. 0) [0x10000]"
  let ?t = "(init_state (\<lambda>a. 0) [])\<lparr>free_list := (\<lambda>i. 0)(5 := 0x2000)\<rparr>"
  note defs = init_state_def recycle_leftover_def bytes_to_get_def sys_malloc_def
      MAX_CHUNK_def M_round_up_def M_align_def M_freelist_index_def malloc_fails_def
      ESmallObjectBytes_def EFreeListsNumber_def salvage_scan.simps Let_def
  have h1: "1 \<le> unat (208 :: size_t)" and h2: "unat (208 :: size_t) \<le> 4096" by simp_all
  have k1: "1 \<le> unat (16 :: size_t)" and k2: "unat (16 :: size_t) \<le> 4096" by simp_all
  note grow = chunk_alloc_retry_bounded [OF h1 h2, where fuel = 5 and s = ?s and hs = 0
      and ?s1.0 = ?s]
  note salvage = chunk_alloc_retry_bounded [OF k1 k2, where fuel = 7 and s = ?t and hs = 0
      and ?s1.0 = ?t and b = 48]
  have a: "recycle_leftover 0 ?s = Some ?s" "\<not> malloc_fails ?s"
    by (simp_all add: defs)
  have b: "malloc_fails ?t" "salvage_scan 16 ((\<lambda>i. 0)(5 := 0x2000)) = Found 48"
    by (simp_all add: defs)
  have c: "M_chunk_alloc (Suc (Suc 5)) 208 10 ?s
       = (Returned 0x10000, 10,
          (init_state (\<lambda>a. 0) [])\<lparr>start_free := 0x10000 + 2080, end_free := 0x10000 + 4160,
             heap_size := 4160, sys_calls := [Malloc 4160]\<rparr>)"
    using grow by (auto simp add: defs simp del: M_chunk_alloc.simps)
  have d: "fst (M_chunk_alloc (Suc (Suc 7)) 16 10 ?t) = Returned 0x2000"
    using salvage by (auto simp add: defs simp del: M_chunk_alloc.simps)
  have d': "M_chunk_alloc (Suc (Suc 0)) 16 10 ?t
       = (Returned 0x2000, 3,
          (init_state (\<lambda>a. 0) [])\<lparr>sys_calls := [Malloc 320], start_free := 0x2030,
             end_free := 0x2030\<rparr>)"
    by (simp add: defs fun_eq_iff)
  have e: "fst (M_chunk_alloc (Suc 0) 208 10 ?s) = Out_of_fuel"
    by (simp add: defs)
  have g: "(208 :: size_t) * 10 \<le> bytes_to_get (208 * 10) 0"
    using grow by blast
  from a b c d d' e g h1 h2 k1 k2 show ?thesis by blast
qed

section \<open>The size of a pool-growth request\<close>

text \<open>
  C7. For every block size of 1 to 4096 bytes, a call of \<open>M_chunk_alloc\<close> for 10
  blocks makes no call of the system allocator or exactly one, and that one asks for
  \<open>bytes_to_get need heap_size\<close> bytes with \<open>need = sz * 10\<close>. This is
  \<open>2 * need + M_round_up (heap_size / 16)\<close> (computed without wrap-around) when that
  value is at most 1 MiB and \<open>max need (1 MiB)\<close> otherwise, so it never exceeds
  \<open>max need (1 MiB)\<close>.
\<close>

theorem pool_growth_request:
  assumes sz: "1 \<le> unat sz" "unat sz \<le> 4096"
  shows "(sys_calls (snd (snd (M_chunk_alloc (Suc (Suc fuel)) sz 10 s))) = sys_calls s
          \<or> sys_calls (snd (snd (M_chunk_alloc (Suc (Suc fuel)) sz 10 s)))
               = sys_calls s @ [Malloc (bytes_to_get (sz * 10) (heap_size s))])
         \<and> bytes_to_get (sz * 10) hs =
             (if 2 * (sz * 10) + M_round_up (hs div 16) \<le> MAX_CHUNK
              then 2 * (sz * 10) + M_round_up (hs div 16)
              else max (sz * 10) MAX_CHUNK)
         \<and> unat (2 * (sz * 10) + M_round_up (hs div 16))
             = 2 * (unat sz * 10) + unat (M_round_up (hs div 16))
         \<and> unat MAX_CHUNK = 2 ^ 20
         \<and> bytes_to_get (sz * 10) hs \<le> max (sz * 10) MAX_CHUNK"
proof -
  let ?pool = "end_free s - start_free s"
  let ?r = "M_chunk_alloc (Suc (Suc fuel)) sz 10 s"
  let ?get = "bytes_to_get (sz * 10) (heap_size s)"
  have log: "sys_calls (snd (snd ?r)) = sys_calls s
          \<or> sys_calls (snd (snd ?r)) = sys_calls s @ [Malloc ?get]"
  proof (cases "sz \<le> ?pool")
    case True
    note serve = chunk_alloc_serve [OF sz True]
    have "?r = M_chunk_alloc (Suc 0) sz 10 s" by (rule serve(1))
    then show ?thesis using serve(5) by simp
  next
    case False
    then have pool: "?pool < sz" by simp
    show ?thesis
    proof (cases "recycle_leftover ?pool s")
      case None
      show ?thesis by (simp only: chunk_alloc_undefined [OF sz pool None]) simp
    next
      case (Some s1)
      have calls: "sys_calls s1 = sys_calls s" using Some by (rule recycle_leftover_fields)
      show ?thesis
      proof (cases "malloc_fails s1")
        case False
        show ?thesis
          by (simp only: chunk_alloc_grow [OF sz pool Some False]) (simp add: calls)
      next
        case True
        show ?thesis
        proof (cases "salvage_scan sz (free_list s1)")
          case (Found b)
          let ?s4 = "(snd (sys_malloc ?get s1))
                \<lparr>free_list := (free_list s1)
                   (class_index (unat b) := next_field s1 (free_list s1 (class_index (unat b)))),
                 start_free := free_list s1 (class_index (unat b)),
                 end_free := free_list s1 (class_index (unat b)) + b\<rparr>"
          have b: "unat sz \<le> unat b"
            using salvage_scan_result [OF sz(1), of "free_list s1"] Found by simp
          then have enough: "sz \<le> end_free ?s4 - start_free ?s4"
            by (simp add: word_le_nat_alt)
          note serve = chunk_alloc_serve [OF sz enough]
          show ?thesis
            using serve(5)
            by (simp only: chunk_alloc_salvage_retry [OF sz pool Some True Found]) (simp add: calls)
        next
          case Not_found
          show ?thesis
            by (simp only: chunk_alloc_oom [OF sz pool Some True Not_found]) (simp add: calls)
        next
          case Out_of_table
          then show ?thesis using salvage_scan_in_table [OF sz(1)] by simp
        qed
      qed
    qed
  qed
  have need: "unat (sz * 10) \<le> 40960" using sz by (simp add: unat_times_10)
  have sh: "push_bit 1 (sz * 10) = 2 * (sz * 10)" "drop_bit 4 hs = hs div 16"
    by (simp_all add: push_bit_eq_mult drop_bit_eq_div)
  have formula: "bytes_to_get (sz * 10) hs =
             (if 2 * (sz * 10) + M_round_up (hs div 16) \<le> MAX_CHUNK
              then 2 * (sz * 10) + M_round_up (hs div 16)
              else max (sz * 10) MAX_CHUNK)"
  proof (cases "MAX_CHUNK < 2 * (sz * 10) + M_round_up (hs div 16)")
    case True
    then have "\<not> 2 * (sz * 10) + M_round_up (hs div 16) \<le> MAX_CHUNK"
      by (simp only: not_le)
    with True show ?thesis
      unfolding bytes_to_get_def Let_def sh by (simp only: if_True if_False)
  next
    case False
    then have "2 * (sz * 10) + M_round_up (hs div 16) \<le> MAX_CHUNK"
      by (simp only: not_less)
    with False show ?thesis
      unfolding bytes_to_get_def Let_def sh by (simp only: if_True if_False)
  qed
  have nowrap: "unat (2 * (sz * 10) + M_round_up (hs div 16))
             = 2 * (unat sz * 10) + unat (M_round_up (hs div 16))"
    using growth_no_wrap [OF need, of hs] sz unfolding sh by (simp only: unat_times_10)
  have cap: "bytes_to_get (sz * 10) hs \<le> max (sz * 10) MAX_CHUNK"
    by (rule bytes_to_get_cap)
  have "unat MAX_CHUNK = 2 ^ 20" by (simp add: MAX_CHUNK_def)
  with log formula nowrap cap show ?thesis by blast
qed

text \<open>
  The theorem at the block size 208 in the initial state: the request is of 4160 bytes;
  with a \<open>heap_size\<close> of 16 MiB it is of 1 MiB.
\<close>

theorem pool_growth_request_witness:
  "1 \<le> unat (208 :: size_t) \<and> unat (208 :: size_t) \<le> 4096
   \<and> sys_calls (snd (snd (M_chunk_alloc (Suc (Suc 0)) 208 10 (init_state (\<lambda>a. 0) [0x10000]))))
       = [Malloc 4160]
   \<and> bytes_to_get (208 * 10) 0 = 4160
   \<and> bytes_to_get (208 * 10) (16 * 1048576) = 1048576
   \<and> bytes_to_get (208 * 10) 0 \<le> max (208 * 10) MAX_CHUNK"
  using pool_growth_request [of 208 0 "init_state (\<lambda>a. 0) [0x10000]" 0]
  by (simp add: init_state_def recycle_leftover_def bytes_to_get_def sys_malloc_def
      MAX_CHUNK_def M_round_up_def M_align_def Let_def)

section \<open>Failure of the system allocation\<close>

text \<open>
  The free lists from the one of a block size \<open>sz\<close> upwards are the lists whose
  blocks have at least \<open>sz\<close> bytes.
\<close>

lemma classes_at_least:
  assumes "1 \<le> unat sz" "unat sz \<le> 4096" "i < EFreeListsNumber"
  shows "(unat (M_freelist_index sz) \<le> i) = (unat sz \<le> class_size i)"
proof
  have i: "i < 56" using assms(3) by (simp add: EFreeListsNumber_def)
  have idx: "unat (M_freelist_index sz) = class_index (unat sz)"
    using assms by (simp add: M_freelist_index_unat)
  {
    assume "unat (M_freelist_index sz) \<le> i"
    then have "class_size (class_index (unat sz)) \<le> class_size i"
      by (simp add: idx class_size_mono)
    then have "block_size (unat sz) \<le> class_size i"
      using assms by (simp add: block_size_class)
    then show "unat sz \<le> class_size i"
      using block_size_ge [of "unat sz"] by linarith
  }
  {
    assume le: "unat sz \<le> class_size i"
    have "class_index (unat sz) \<le> class_index (class_size i)"
      using assms(1) le class_size_le [OF i] by (intro class_index_mono) simp_all
    then show "unat (M_freelist_index sz) \<le> i"
      using i by (simp add: idx class_index_class_size)
  }
qed

text \<open>
  C4. Let the block size be of 1 to 4096 bytes and the pool hold less than one block,
  and let \<open>s1\<close> be the state after the tail of the old pool has gone to its free list, at
  the time of the system allocation. \<open>M_chunk_alloc\<close> throws \<open>std::bad_alloc\<close> if and
  only if the system allocation fails and the free lists from the one of the block
  size up to the last (index 55), the lists of blocks of at least that size, are all
  empty in \<open>s1\<close>. When the system allocation
  fails and \<open>i\<close> is the first of these lists that is not empty, its head block is taken
  off the list and becomes the pool region, of the size \<open>bytes\<close> at which the search
  arrived there; the retry is a call that does not call itself again, and it returns
  that block and serves at least one block.
\<close>

theorem salvage_after_failed_system_allocation:
  assumes sz: "1 \<le> unat sz" "unat sz \<le> 4096"
    and pool: "end_free s - start_free s < sz"
    and rec: "recycle_leftover (end_free s - start_free s) s = Some s1"
  shows "(fst (M_chunk_alloc (Suc (Suc fuel)) sz 10 s) = Bad_alloc)
           = (malloc_fails s1 \<and>
              (\<forall>i. unat (M_freelist_index sz) \<le> i \<and> i < EFreeListsNumber \<longrightarrow> free_list s1 i = 0))
         \<and> (malloc_fails s1 \<and> unat (M_freelist_index sz) \<le> i \<and> i < EFreeListsNumber \<and>
            free_list s1 i \<noteq> 0 \<and>
            (\<forall>j. unat (M_freelist_index sz) \<le> j \<and> j < i \<longrightarrow> free_list s1 j = 0) \<longrightarrow>
            (\<exists>bytes. sz \<le> bytes \<and> bytes \<le> ESmallObjectBytes \<and> unat (M_freelist_index bytes) = i \<and>
               M_chunk_alloc (Suc (Suc fuel)) sz 10 s =
                 M_chunk_alloc (Suc 0) sz 10
                   (s1\<lparr>malloc_results := malloc_results (snd (sys_malloc 0 s1)),
                       sys_calls := sys_calls s @ [Malloc (bytes_to_get (sz * 10) (heap_size s))],
                       free_list := (free_list s1)(i := next_field s1 (free_list s1 i)),
                       start_free := free_list s1 i,
                       end_free := free_list s1 i + bytes\<rparr>)) \<and>
            fst (M_chunk_alloc (Suc (Suc fuel)) sz 10 s) = Returned (free_list s1 i) \<and>
            1 \<le> fst (snd (M_chunk_alloc (Suc (Suc fuel)) sz 10 s)))"
proof -
  let ?r = "M_chunk_alloc (Suc (Suc fuel)) sz 10 s"
  let ?lo = "unat (M_freelist_index sz)"
  let ?get = "bytes_to_get (sz * 10) (heap_size s)"
  have lo: "?lo = class_index (unat sz)" using sz by (simp add: M_freelist_index_unat)
  have calls: "sys_calls s1 = sys_calls s" using rec by (rule recycle_leftover_fields)
  note scan = salvage_scan_result [OF sz(1), of "free_list s1"]
  have part1: "(fst ?r = Bad_alloc)
           = (malloc_fails s1 \<and>
              (\<forall>i. ?lo \<le> i \<and> i < EFreeListsNumber \<longrightarrow> free_list s1 i = 0))"
  proof (cases "malloc_fails s1")
    case False
    have "fst ?r \<noteq> Bad_alloc"
      by (simp only: chunk_alloc_grow [OF sz pool rec False]) simp
    with False show ?thesis by simp
  next
    case True
    show ?thesis
    proof (cases "salvage_scan sz (free_list s1)")
      case (Found b)
      let ?s4 = "(snd (sys_malloc ?get s1))
                \<lparr>free_list := (free_list s1)
                   (class_index (unat b) := next_field s1 (free_list s1 (class_index (unat b)))),
                 start_free := free_list s1 (class_index (unat b)),
                 end_free := free_list s1 (class_index (unat b)) + b\<rparr>"
      from scan Found have b: "unat sz \<le> unat b" "unat b \<le> 4096"
        "free_list s1 (class_index (unat b)) \<noteq> 0" "class_index (unat sz) \<le> class_index (unat b)"
        by simp_all
      have "class_index (unat b) < 56" using b sz by (simp add: class_index_range)
      then have rhs: "\<not> (\<forall>i. ?lo \<le> i \<and> i < EFreeListsNumber \<longrightarrow> free_list s1 i = 0)"
        using b(3,4) by (auto simp add: lo EFreeListsNumber_def)
      have enough: "sz \<le> end_free ?s4 - start_free ?s4"
        using b by (simp add: word_le_nat_alt)
      have "fst ?r \<noteq> Bad_alloc"
        using chunk_alloc_serve(2) [OF sz enough]
        by (simp only: chunk_alloc_salvage_retry [OF sz pool rec True Found]) simp
      then show ?thesis using rhs by simp
    next
      case Not_found
      with scan sz have "\<forall>i. ?lo \<le> i \<and> i < EFreeListsNumber \<longrightarrow> free_list s1 i = 0"
        by (simp add: lo EFreeListsNumber_def)
      moreover have "fst ?r = Bad_alloc"
        by (simp only: chunk_alloc_oom [OF sz pool rec True Not_found]) simp
      ultimately show ?thesis using True by simp
    next
      case Out_of_table
      then show ?thesis using salvage_scan_in_table [OF sz(1)] by simp
    qed
  qed
  have part2: "(\<exists>bytes. sz \<le> bytes \<and> bytes \<le> ESmallObjectBytes \<and> unat (M_freelist_index bytes) = i \<and>
               ?r = M_chunk_alloc (Suc 0) sz 10
                   (s1\<lparr>malloc_results := malloc_results (snd (sys_malloc 0 s1)),
                       sys_calls := sys_calls s @ [Malloc ?get],
                       free_list := (free_list s1)(i := next_field s1 (free_list s1 i)),
                       start_free := free_list s1 i,
                       end_free := free_list s1 i + bytes\<rparr>)) \<and>
            fst ?r = Returned (free_list s1 i) \<and> 1 \<le> fst (snd ?r)"
    if fail: "malloc_fails s1" and i: "?lo \<le> i" "i < EFreeListsNumber" "free_list s1 i \<noteq> 0"
      and first: "\<forall>j. ?lo \<le> j \<and> j < i \<longrightarrow> free_list s1 j = 0"
  proof (cases "salvage_scan sz (free_list s1)")
    case (Found b)
    let ?s4 = "(snd (sys_malloc ?get s1))
                \<lparr>free_list := (free_list s1)
                   (class_index (unat b) := next_field s1 (free_list s1 (class_index (unat b)))),
                 start_free := free_list s1 (class_index (unat b)),
                 end_free := free_list s1 (class_index (unat b)) + b\<rparr>"
    from scan Found have b: "unat sz \<le> unat b" "unat b \<le> 4096"
      "free_list s1 (class_index (unat b)) \<noteq> 0" "class_index (unat sz) \<le> class_index (unat b)"
      "\<forall>j. class_index (unat sz) \<le> j \<and> j < class_index (unat b) \<longrightarrow> free_list s1 j = 0"
      by simp_all
    have "\<not> i < class_index (unat b)" using b(5) i by (auto simp add: lo)
    moreover have "\<not> class_index (unat b) < i" using first b(3,4) by (auto simp add: lo)
    ultimately have eq: "class_index (unat b) = i" by simp
    have idx: "unat (M_freelist_index b) = i" using b sz eq by (simp add: M_freelist_index_unat)
    have enough: "sz \<le> end_free ?s4 - start_free ?s4"
      using b by (simp add: word_le_nat_alt)
    note serve = chunk_alloc_serve [OF sz enough]
    have s4: "?s4 = s1\<lparr>malloc_results := malloc_results (snd (sys_malloc 0 s1)),
                       sys_calls := sys_calls s @ [Malloc ?get],
                       free_list := (free_list s1)(i := next_field s1 (free_list s1 i)),
                       start_free := free_list s1 i,
                       end_free := free_list s1 i + b\<rparr>"
      by (simp add: sys_malloc_def eq calls split: list.split)
    have r: "?r = M_chunk_alloc (Suc 0) sz 10 ?s4"
      by (rule chunk_alloc_salvage_retry [OF sz pool rec fail Found])
    have "sz \<le> b" "b \<le> ESmallObjectBytes"
      using b by (simp_all add: word_le_nat_alt ESmallObjectBytes_def)
    moreover have sf: "start_free ?s4 = free_list s1 i" by (simp add: eq)
    have "fst ?r = Returned (free_list s1 i)" by (simp only: r serve(2) sf)
    moreover have "1 \<le> fst (snd ?r)" by (simp only: r serve(3))
    moreover have "?r = M_chunk_alloc (Suc 0) sz 10
                   (s1\<lparr>malloc_results := malloc_results (snd (sys_malloc 0 s1)),
                       sys_calls := sys_calls s @ [Malloc ?get],
                       free_list := (free_list s1)(i := next_field s1 (free_list s1 i)),
                       start_free := free_list s1 i,
                       end_free := free_list s1 i + b\<rparr>)"
      by (simp only: r s4)
    ultimately show ?thesis using idx by blast
  next
    case Not_found
    with scan sz i show ?thesis by (simp add: lo EFreeListsNumber_def)
  next
    case Out_of_table
    then show ?thesis using salvage_scan_in_table [OF sz(1)] by simp
  qed
  from part1 part2 show ?thesis by blast
qed

lemmas eval_defs =
  init_state_def allocate_def deallocate_def M_refill_def recycle_leftover_def
  bytes_to_get_def sys_malloc_def sys_free_def MAX_CHUNK_def ESmallObjectBytes_def
  EFreeListsNumber_def M_round_up_def M_align_def M_freelist_index_def malloc_fails_def
  salvage_scan.simps Let_def

text \<open>
  The theorem for blocks of 16 bytes when the system allocator fails and only the list 5
  (blocks of 48 bytes) holds a block: the block becomes the pool and serves 3 blocks.
\<close>

theorem salvage_after_failed_system_allocation_witness:
  "1 \<le> unat (16 :: size_t) \<and> unat (16 :: size_t) \<le> 4096
   \<and> malloc_fails ((init_state (\<lambda>a. 0) [])\<lparr>free_list := (\<lambda>i. 0)(5 := 0x2000)\<rparr>)
   \<and> unat (M_freelist_index 16) = 1
   \<and> (fst (M_chunk_alloc (Suc (Suc 0)) 16 10
              ((init_state (\<lambda>a. 0) [])\<lparr>free_list := (\<lambda>i. 0)(5 := 0x2000)\<rparr>)) = Bad_alloc) = False
   \<and> M_chunk_alloc (Suc (Suc 0)) 16 10
            ((init_state (\<lambda>a. 0) [])\<lparr>free_list := (\<lambda>i. 0)(5 := 0x2000)\<rparr>)
       = (Returned 0x2000, 3,
          (init_state (\<lambda>a. 0) [])\<lparr>sys_calls := [Malloc 320], start_free := 0x2030, end_free := 0x2030\<rparr>)"
proof -
  let ?s = "(init_state (\<lambda>a. 0) [])\<lparr>free_list := (\<lambda>i. 0)(5 := 0x2000)\<rparr>"
  have h1: "1 \<le> unat (16 :: size_t)" and h2: "unat (16 :: size_t) \<le> 4096" by simp_all
  have h3: "end_free ?s - start_free ?s < 16" by (simp add: init_state_def)
  have h4: "recycle_leftover (end_free ?s - start_free ?s) ?s = Some ?s"
    by (simp add: init_state_def recycle_leftover_def)
  note t = salvage_after_failed_system_allocation [OF h1 h2 h3 h4, of 0 5]
  have f: "malloc_fails ?s" by (simp add: eval_defs)
  have i: "unat (M_freelist_index 16) = 1" by (simp add: eval_defs)
  have e: "\<forall>j. unat (M_freelist_index 16) \<le> j \<and> j < 5 \<longrightarrow> free_list ?s j = 0"
    by (simp add: i init_state_def)
  have n: "free_list ?s 5 \<noteq> 0" by (simp add: init_state_def)
  have "M_chunk_alloc (Suc (Suc 0)) 16 10 ?s
       = (Returned 0x2000, 3,
          (init_state (\<lambda>a. 0) [])\<lparr>sys_calls := [Malloc 320], start_free := 0x2030, end_free := 0x2030\<rparr>)"
    by (simp add: eval_defs fun_eq_iff)
  then show ?thesis using t f i e n by (simp add: EFreeListsNumber_def)
qed

section \<open>The two failure signals of \<open>allocate\<close>\<close>

lemma M_round_up_range:
  assumes "1 \<le> unat m" "unat m \<le> 4096"
  shows "1 \<le> unat (M_round_up m)" "unat (M_round_up m) \<le> 4096"
    "unat (M_freelist_index (M_round_up m)) = unat (M_freelist_index m)"
proof -
  have r: "unat (M_round_up m) = block_size (unat m)"
    using assms by (simp add: M_round_up_block_size)
  have c: "block_size (unat m) = class_size (class_index (unat m))"
    using assms by (rule block_size_class)
  have i: "class_index (unat m) < 56" using assms by (rule class_index_range)
  show 1: "1 \<le> unat (M_round_up m)" using block_size_ge [of "unat m"] assms by (simp add: r)
  show 2: "unat (M_round_up m) \<le> 4096" using class_size_le [OF i] by (simp add: r c)
  have "class_index (block_size (unat m)) = class_index (unat m)"
    using i by (simp add: c class_index_class_size)
  then show "unat (M_freelist_index (M_round_up m)) = unat (M_freelist_index m)"
    using 1 2 assms by (simp add: M_freelist_index_unat r)
qed

lemma allocate_small_empty_oom:
  assumes m: "1 \<le> unat m" "unat m \<le> 4096"
    and pool: "start_free s = end_free s"
    and empty: "\<forall>i<EFreeListsNumber. free_list s i = 0"
    and fail: "malloc_fails s"
  shows "fst (allocate (Suc fuel) m s) = Bad_alloc"
proof -
  let ?sz = "M_round_up m"
  note sz = M_round_up_range(1,2) [OF m]
  have idx: "unat (M_freelist_index m) < EFreeListsNumber"
    using m by (simp add: M_freelist_index_unat class_index_range EFreeListsNumber_def)
  have small: "\<not> ESmallObjectBytes < m"
    using m by (simp add: ESmallObjectBytes_def word_less_nat_alt)
  have refill: "allocate (Suc fuel) m s = M_refill (Suc fuel) ?sz s"
    using idx small empty by (simp add: allocate_def Let_def)
  have "unat (0 :: size_t) < unat ?sz" using sz by simp
  then have p: "end_free s - start_free s < ?sz" by (simp add: pool word_less_nat_alt)
  have rec: "recycle_leftover (end_free s - start_free s) s = Some s"
    by (simp add: pool recycle_leftover_def)
  have scan: "salvage_scan ?sz (free_list s) = Not_found"
  proof (cases "salvage_scan ?sz (free_list s)")
    case (Found b)
    with salvage_scan_result [OF sz(1), of "free_list s"]
    have b: "unat ?sz \<le> unat b" "unat b \<le> 4096" "free_list s (class_index (unat b)) \<noteq> 0"
      by simp_all
    have "class_index (unat b) < 56" using b sz by (simp add: class_index_range)
    with empty b(3) show ?thesis by (simp add: EFreeListsNumber_def)
  next
    case Out_of_table
    then show ?thesis using salvage_scan_in_table [OF sz(1)] by simp
  qed simp
  show ?thesis
    by (simp only: refill M_refill_def chunk_alloc_oom [OF sz p rec fail scan]) simp
qed

text \<open>
  C10. For every \<open>n\<close> above 4096, \<open>allocate n\<close> returns the result of the system
  allocation as it is: when the system allocator fails the caller gets the null pointer.
  A request of 1 to 4096 bytes that finds its free lists and the pool empty and the
  system allocator failing throws \<open>std::bad_alloc\<close> instead.
\<close>

theorem large_request_failure_is_null:
  "(4096 < n \<longrightarrow> fst (allocate fuel n s) = Returned (fst (sys_malloc n s)))
   \<and> (4096 < n \<and> malloc_fails s \<longrightarrow> fst (allocate fuel n s) = Returned 0)
   \<and> (1 \<le> unat m \<and> unat m \<le> 4096 \<and> malloc_fails s \<and> start_free s = end_free s \<and>
      (\<forall>i<EFreeListsNumber. free_list s i = 0) \<longrightarrow>
      fst (allocate (Suc fuel) m s) = Bad_alloc)"
proof -
  have 1: "fst (allocate fuel n s) = Returned (fst (sys_malloc n s))" if "4096 < n"
    using that by (simp add: allocate_def ESmallObjectBytes_def split_beta)
  have 2: "fst (allocate fuel n s) = Returned 0" if "4096 < n" "malloc_fails s"
    using that sys_malloc_fails [of n s] by (simp add: 1)
  show ?thesis using 1 2 allocate_small_empty_oom [of m s fuel] by blast
qed

text \<open>
  The theorem in the initial state with a failing system allocator, at requests of 5000
  and of 200 bytes.
\<close>

theorem large_request_failure_is_null_witness:
  "(4096 :: size_t) < 5000 \<and> malloc_fails (init_state (\<lambda>a. 0) [])
   \<and> fst (allocate 0 5000 (init_state (\<lambda>a. 0) [])) = Returned 0
   \<and> 1 \<le> unat (200 :: size_t) \<and> unat (200 :: size_t) \<le> 4096
   \<and> start_free (init_state (\<lambda>a. 0) []) = end_free (init_state (\<lambda>a. 0) [])
   \<and> free_list (init_state (\<lambda>a. 0) []) = (\<lambda>i. 0)
   \<and> fst (allocate (Suc 0) 200 (init_state (\<lambda>a. 0) [])) = Bad_alloc"
  using large_request_failure_is_null [of 5000 0 "init_state (\<lambda>a. 0) []" 200]
  by (simp add: init_state_def malloc_fails_def sys_malloc_def)

section \<open>Allocation from a stocked free list\<close>

text \<open>
  C1 says that \<open>allocate\<close> takes the block it returns off the free list, so that
  no block is granted twice. The code does not: for every request of 1 to 4096 bytes
  whose free list is not empty, \<open>allocate\<close> returns the head of the list and leaves the
  whole state as it was, the table included (line 113 assigns \<open>result->next\<close> to the
  local copy \<open>my_free_list\<close>). The next \<open>allocate\<close> of the class returns the same block.
\<close>

theorem allocate_leaves_head_on_list:
  assumes "1 \<le> unat n" "unat n \<le> 4096"
    and "free_list s (unat (M_freelist_index n)) \<noteq> 0"
  shows "allocate fuel n s = (Returned (free_list s (unat (M_freelist_index n))), s)
         \<and> allocate fuel n (snd (allocate fuel n s))
             = (Returned (free_list s (unat (M_freelist_index n))), s)"
proof -
  have idx: "unat (M_freelist_index n) < EFreeListsNumber"
    using assms by (simp add: M_freelist_index_unat class_index_range EFreeListsNumber_def)
  have small: "\<not> ESmallObjectBytes < n"
    using assms by (simp add: ESmallObjectBytes_def word_less_nat_alt)
  have "allocate fuel n s = (Returned (free_list s (unat (M_freelist_index n))), s)"
    using idx small assms(3) by (simp add: allocate_def Let_def)
  then show ?thesis by simp
qed

text \<open>
  Three calls of \<open>allocate 8\<close> from the initial state, the system allocator answering
  the address 0x10000: the first refills the list, the second and the third both return
  the block at 0x10048, and no \<open>deallocate\<close> lies between them.
\<close>

theorem allocate_leaves_head_on_list_witness:
  "1 \<le> unat (8 :: size_t) \<and> unat (8 :: size_t) \<le> 4096
   \<and> fst (allocate (Suc (Suc 0)) 8 (init_state (\<lambda>a. 0) [0x10000])) = Falls_off_end
   \<and> free_list (snd (allocate (Suc (Suc 0)) 8 (init_state (\<lambda>a. 0) [0x10000]))) (unat (M_freelist_index 8))
       = 0x10048
   \<and> fst (allocate (Suc (Suc 0)) 8 (snd (allocate (Suc (Suc 0)) 8 (init_state (\<lambda>a. 0) [0x10000])))) = Returned 0x10048
   \<and> fst (allocate (Suc (Suc 0)) 8 (snd (allocate (Suc (Suc 0)) 8 (snd (allocate (Suc (Suc 0)) 8 (init_state (\<lambda>a. 0) [0x10000]))))))
       = Returned 0x10048"
proof -
  let ?s1 = "snd (allocate (Suc (Suc 0)) 8 (init_state (\<lambda>a. 0) [0x10000]))"
  have h1: "1 \<le> unat (8 :: size_t)" and h2: "unat (8 :: size_t) \<le> 4096" by simp_all
  have i: "unat (M_freelist_index 8) = 0" by (simp add: M_freelist_index_def)
  have r: "fst (allocate (Suc (Suc 0)) 8 (init_state (\<lambda>a. 0) [0x10000])) = Falls_off_end"
    by (simp add: eval_defs)
  have f: "free_list ?s1 (unat (M_freelist_index 8)) = 0x10048"
    unfolding i by (simp add: eval_defs)
  then have h3: "free_list ?s1 (unat (M_freelist_index 8)) \<noteq> 0" by simp
  show ?thesis
    using allocate_leaves_head_on_list [OF h1 h2 h3, of "Suc (Suc 0)"] r f by simp
qed

section \<open>The first allocation of a class\<close>

lemma chain_step:
  "chain k mem p =
     (if p = 0 then Some []
      else if k = 0 then None
      else (case chain (k - 1) mem (mem p) of None \<Rightarrow> None | Some ps \<Rightarrow> Some (p # ps)))"
  by (cases k) simp_all

text \<open>
  C2 says that \<open>allocate 200\<close>, on an empty pool and a class never used, returns a
  block of 208 bytes and leaves 9 blocks on the list of the class. The code takes 10
  blocks of 208 bytes from a new pool region of 4160 bytes and puts 9 of them on the
  list 20, but \<open>M_refill\<close> then reaches its closing brace without a \<open>return\<close>
  statement: the call has no return value.
\<close>

theorem refill_has_no_return_value:
  "fst (allocate (Suc (Suc 0)) 200 (init_state (\<lambda>a. 0) [0x10000])) = Falls_off_end
   \<and> fst (M_refill (Suc (Suc 0)) (M_round_up 200) (init_state (\<lambda>a. 0) [0x10000])) = Falls_off_end
   \<and> M_chunk_alloc (Suc (Suc 0)) (M_round_up 200) 10 (init_state (\<lambda>a. 0) [0x10000])
       = (Returned 0x10000, 10,
          (init_state (\<lambda>a. 0) [])\<lparr>start_free := 0x10000 + 2080, end_free := 0x10000 + 4160,
             heap_size := 4160, sys_calls := [Malloc 4160]\<rparr>)
   \<and> chain 56 (next_field (snd (allocate (Suc (Suc 0)) 200 (init_state (\<lambda>a. 0) [0x10000]))))
         (free_list (snd (allocate (Suc (Suc 0)) 200 (init_state (\<lambda>a. 0) [0x10000])))
            (unat (M_freelist_index 200)))
       = Some [0x10000 + 9 * 208, 0x10000 + 8 * 208, 0x10000 + 7 * 208, 0x10000 + 6 * 208,
               0x10000 + 5 * 208, 0x10000 + 4 * 208, 0x10000 + 3 * 208, 0x10000 + 2 * 208,
               0x10000 + 208]"
  by (simp add: eval_defs chain_step)

section \<open>Allocate, deallocate, allocate\<close>

text \<open>
  C3. For every \<open>n\<close> of 1 to 4096: when \<open>allocate n\<close> has returned the block \<open>p\<close>
  and \<open>deallocate p n\<close> has returned, the next \<open>allocate n\<close> returns \<open>p\<close> again.
  \<open>deallocate\<close> has put \<open>p\<close> at the head of the list of the class, in front of the
  former head.
\<close>

theorem round_trip_same_block:
  assumes "1 \<le> unat n" "unat n \<le> 4096"
    and "allocate fuel n s = (Returned p, s1)"
    and "deallocate p n s1 = (Returned (), s2)"
  shows "fst (allocate fuel' n s2) = Returned p
         \<and> free_list s2 (unat (M_freelist_index n)) = p
         \<and> next_field s2 p = free_list s1 (unat (M_freelist_index n))"
proof -
  have idx: "unat (M_freelist_index n) < EFreeListsNumber"
    using assms by (simp add: M_freelist_index_unat class_index_range EFreeListsNumber_def)
  have small: "\<not> ESmallObjectBytes < n"
    using assms by (simp add: ESmallObjectBytes_def word_less_nat_alt)
  from assms(4) have p: "p \<noteq> 0"
    and s2: "s2 = s1\<lparr>next_field := (next_field s1)(p := free_list s1 (unat (M_freelist_index n))),
                    free_list := (free_list s1)(unat (M_freelist_index n) := p)\<rparr>"
    using small by (auto simp add: deallocate_def Let_def split: if_splits)
  show ?thesis using idx small p by (simp add: s2 allocate_def Let_def)
qed

text \<open>
  The theorem for 8 bytes with a pool of exactly 8 bytes at 0x10000: \<open>allocate\<close> takes
  the one block the pool holds, \<open>deallocate\<close> puts it on the list 0, \<open>allocate\<close>
  returns it again.
\<close>

theorem round_trip_same_block_witness:
  "1 \<le> unat (8 :: size_t) \<and> unat (8 :: size_t) \<le> 4096
   \<and> allocate (Suc (Suc 0)) 8 ((init_state (\<lambda>a. 0) [])\<lparr>start_free := 0x10000, end_free := 0x10008\<rparr>)
       = (Returned 0x10000, (init_state (\<lambda>a. 0) [])\<lparr>start_free := 0x10008, end_free := 0x10008\<rparr>)
   \<and> deallocate 0x10000 8 ((init_state (\<lambda>a. 0) [])\<lparr>start_free := 0x10008, end_free := 0x10008\<rparr>)
       = (Returned (), (init_state (\<lambda>a. 0) [])\<lparr>start_free := 0x10008, end_free := 0x10008,
                          free_list := (\<lambda>i. 0)(0 := 0x10000)\<rparr>)
   \<and> fst (allocate (Suc (Suc 0)) 8 ((init_state (\<lambda>a. 0) [])\<lparr>start_free := 0x10008, end_free := 0x10008,
                          free_list := (\<lambda>i. 0)(0 := 0x10000)\<rparr>)) = Returned 0x10000"
proof -
  let ?s = "(init_state (\<lambda>a. 0) [])\<lparr>start_free := 0x10000, end_free := 0x10008\<rparr>"
  let ?s1 = "(init_state (\<lambda>a. 0) [])\<lparr>start_free := 0x10008, end_free := 0x10008\<rparr>"
  let ?s2 = "(init_state (\<lambda>a. 0) [])\<lparr>start_free := 0x10008, end_free := 0x10008,
                          free_list := (\<lambda>i. 0)(0 := 0x10000)\<rparr>"
  have h1: "1 \<le> unat (8 :: size_t)" and h2: "unat (8 :: size_t) \<le> 4096" by simp_all
  have h3: "allocate (Suc (Suc 0)) 8 ?s = (Returned 0x10000, ?s1)"
    by (simp add: eval_defs)
  have h4: "deallocate 0x10000 8 ?s1 = (Returned (), ?s2)"
    by (simp add: eval_defs fun_eq_iff)
  show ?thesis
    using round_trip_same_block [OF h1 h2 h3 h4, of "Suc (Suc 0)"] h3 h4 by simp
qed

end
